theory Spec2Isabelle
  imports Complex_Main
begin

section \<open>Poisson factorization (poismf.c): data model\<close>

text \<open>
  The C source works on \<^verbatim>\<open>double\<close> arrays. The embedding idealises \<^verbatim>\<open>double\<close> as
  \<^typ>\<open>real\<close>: every statement below is about the exact arithmetic the code writes
  down, not about rounding. Sizes and sparse indices (\<^verbatim>\<open>size_t\<close>, \<^verbatim>\<open>sparse_ix\<close>)
  are natural numbers. A dense matrix is the flat row-major array the code
  indexes as \<^verbatim>\<open>M[row*k + col]\<close>; the pointer \<^verbatim>\<open>M + off\<close> handed to a BLAS routine
  with length \<open>n\<close> is the slice \<open>vec n off M\<close>, and the routine's in-place result is
  written back with \<open>store\<close>. The OpenMP loops write disjoint rows and read only
  data that no iteration writes, so they are modelled as the sequential loops.

  Division: a quotient of reals with divisor \<open>0\<close> is \<open>0\<close> in HOL, where the code's
  \<^verbatim>\<open>double\<close> division yields an infinity or a NaN. The gradient and objective
  routines divide by (or take the logarithm of) the predicted values
  \<open>dot(a, B[col])\<close>; the model agrees with the code where these are strictly
  positive, which the spec makes the caller's responsibility. The theorems
  below that are stated for arbitrary inputs and involve these routines carry that
  hypothesis (\<open>dots_positive\<close>, or the inequality itself), and those stated at a
  concrete input are stated where it holds; the auxiliary lemmas without it are
  equations of the model, applied under it.

  Conversions to \<^verbatim>\<open>int\<close>: \<^verbatim>\<open>k_int = (int) k\<close> is taken within the range of \<^verbatim>\<open>int\<close>, where
  the conversion keeps the value; the iteration budget that reaches \<^verbatim>\<open>tnc\<close> through
  the \<^verbatim>\<open>int\<close> parameter of \<^verbatim>\<open>tncg_iteration\<close> is converted explicitly
  (\<open>size_t_to_int\<close>).
\<close>

type_synonym sparse_ix = nat

datatype Method = tncg | cg | pg

text \<open>
  The conversion of a \<^verbatim>\<open>size_t\<close> to a 32-bit \<^verbatim>\<open>int\<close> (implementation-defined outside
  the range of \<^verbatim>\<open>int\<close>; the usual wrap-around).
\<close>

definition size_t_to_int :: "nat \<Rightarrow> int" where
  "size_t_to_int n =
     (let m = int n mod 2 ^ 32 in if m < 2 ^ 31 then m else m - 2 ^ 32)"

definition nonneg :: "real \<Rightarrow> real" where
  "nonneg x = (if x > 0 then x else 0)"

definition vec :: "nat \<Rightarrow> nat \<Rightarrow> 'a list \<Rightarrow> 'a list" where
  "vec n off M = take n (drop off M)"

definition store :: "nat \<Rightarrow> 'a list \<Rightarrow> 'a list \<Rightarrow> 'a list" where
  "store off v M = take off M @ v @ drop (off + length v) M"

subsection \<open>The BLAS level-1 routines\<close>

text \<open>
  Modelled from the spec: the vectorized-math primitive (CBLAS) is not part of the
  source file; the spec names it as supplying scale, scaled-accumulate and
  dot-product over dense vectors. All calls in the source use stride 1.
  \<open>cblas_daxpy n alpha x y\<close> is the new content of \<open>y\<close>, \<open>cblas_dscal n alpha x\<close>
  the new content of \<open>x\<close>.
\<close>

definition cblas_ddot :: "nat \<Rightarrow> real list \<Rightarrow> real list \<Rightarrow> real" where
  "cblas_ddot n x y = (\<Sum>i<n. x ! i * y ! i)"

definition cblas_daxpy :: "nat \<Rightarrow> real \<Rightarrow> real list \<Rightarrow> real list \<Rightarrow> real list" where
  "cblas_daxpy n alpha x y =
     map (\<lambda>i. if i < n then alpha * x ! i + y ! i else y ! i) [0..<length y]"

definition cblas_dscal :: "nat \<Rightarrow> real \<Rightarrow> real list \<Rightarrow> real list" where
  "cblas_dscal n alpha x =
     map (\<lambda>i. if i < n then alpha * x ! i else x ! i) [0..<length x]"

subsection \<open>Helper functions\<close>

definition INT_MAX :: nat where
  "INT_MAX = 2147483647"

definition dscal_large :: "nat \<Rightarrow> real \<Rightarrow> real list \<Rightarrow> real list" where
  "dscal_large n alpha x =
     (if n < INT_MAX then cblas_dscal n alpha x
      else fold (\<lambda>ix x. x[ix := x ! ix * alpha]) [0..<n] x)"

definition sum_by_cols :: "real list \<Rightarrow> nat \<Rightarrow> nat \<Rightarrow> real list" where
  "sum_by_cols M nrow ncol =
     fold (\<lambda>row out.
             fold (\<lambda>col out. out[col := out ! col + M ! (row * ncol + col)])
                  [0..<ncol] out)
          [0..<nrow] (replicate ncol 0)"

text \<open>
  \<^verbatim>\<open>adjustment_Bsum\<close> fills \<^verbatim>\<open>Bsum_user\<close>, of which it uses the first \<open>dimA*k\<close>
  entries: zeroed, then per row the sum of the rows of \<open>B\<close> at the row's column
  indices, then everything scaled by \<open>w_mult - 1\<close>, then \<open>Bsum\<close> added to each row.
\<close>

definition adjustment_Bsum ::
  "real list \<Rightarrow> real list \<Rightarrow> sparse_ix list \<Rightarrow> sparse_ix list \<Rightarrow> nat \<Rightarrow> nat \<Rightarrow> real
   \<Rightarrow> real list" where
  "adjustment_Bsum B Bsum Xr_indices Xr_indptr dimA k w_mult =
     (let Bsum_user = replicate (dimA * k) 0;
          Bsum_user =
            fold (\<lambda>row Bsum_user.
                    fold (\<lambda>ix Bsum_user.
                            store (row * k)
                              (cblas_daxpy k 1 (vec k (Xr_indices ! ix * k) B)
                                 (vec k (row * k) Bsum_user))
                              Bsum_user)
                         [Xr_indptr ! row ..< Xr_indptr ! (row + 1)] Bsum_user)
                 [0..<dimA] Bsum_user;
          n = dimA * k;
          new_w = w_mult - 1;
          Bsum_user = fold (\<lambda>ix Bsum_user. Bsum_user[ix := Bsum_user ! ix * new_w])
                        [0..<n] Bsum_user;
          Bsum_user =
            fold (\<lambda>row Bsum_user.
                    store (row * k)
                      (cblas_daxpy k 1 Bsum (vec k (row * k) Bsum_user)) Bsum_user)
                 [0..<dimA] Bsum_user
      in Bsum_user)"

subsection \<open>Per-row objective data and evaluators\<close>

text \<open>
  The struct \<^verbatim>\<open>fdata\<close> (declared in the missing header) in the order of the
  initialiser \<^verbatim>\<open>{ B, Bsum, NULL, NULL, 0, l2_reg, w_mult, k_int }\<close> and with the field
  names the evaluators use. The pointers \<^verbatim>\<open>Xr\<close> and \<^verbatim>\<open>X_ind\<close> point at the row's first
  nonzero, so they hold the suffix of the value and index arrays from there.
\<close>

record fdata =
  fd_B :: "real list"
  fd_Bsum :: "real list"
  fd_Xr :: "real list"
  fd_X_ind :: "sparse_ix list"
  fd_nnz_this :: nat
  fd_l2_reg :: real
  fd_w_mult :: real
  fd_k :: nat

definition calc_fun_single :: "real list \<Rightarrow> nat \<Rightarrow> fdata \<Rightarrow> real" where
  "calc_fun_single a_row k_int fun_data =
     (let k = k_int;
          reg_term = cblas_ddot k_int (fd_Bsum fun_data) a_row;
          reg_term = reg_term + fd_l2_reg fun_data * cblas_ddot k_int a_row a_row;
          lsum = fold (\<lambda>ix lsum.
                         lsum + fd_Xr fun_data ! ix
                                * ln (cblas_ddot k_int a_row
                                        (vec k (fd_X_ind fun_data ! ix * k) (fd_B fun_data))))
                      [0..<fd_nnz_this fun_data] 0
      in reg_term - lsum * fd_w_mult fun_data)"

definition calc_grad_single :: "real list \<Rightarrow> nat \<Rightarrow> fdata \<Rightarrow> real list" where
  "calc_grad_single a_row k_int fun_data =
     (let k = k_int;
          grad = take k (fd_Bsum fun_data);
          grad = cblas_daxpy k_int (2 * fd_l2_reg fun_data) a_row grad
      in fold (\<lambda>ix grad.
                 cblas_daxpy k_int
                   (- fd_Xr fun_data ! ix
                      / cblas_ddot k_int a_row
                          (vec k (fd_X_ind fun_data ! ix * k) (fd_B fun_data)))
                   (vec k (fd_X_ind fun_data ! ix * k) (fd_B fun_data)) grad)
              [0..<fd_nnz_this fun_data] grad)"

definition calc_grad_single_w :: "real list \<Rightarrow> nat \<Rightarrow> fdata \<Rightarrow> real list" where
  "calc_grad_single_w a_row k_int fun_data =
     (let k = k_int;
          grad = replicate k 0;
          grad = fold (\<lambda>ix grad.
                         cblas_daxpy k_int
                           (- fd_Xr fun_data ! ix
                              / cblas_ddot k_int a_row
                                  (vec k (fd_X_ind fun_data ! ix * k) (fd_B fun_data)))
                           (vec k (fd_X_ind fun_data ! ix * k) (fd_B fun_data)) grad)
                      [0..<fd_nnz_this fun_data] grad;
          grad = cblas_dscal k_int (fd_w_mult fun_data) grad;
          grad = cblas_daxpy k_int 1 (fd_Bsum fun_data) grad
      in cblas_daxpy k_int (2 * fd_l2_reg fun_data) a_row grad)"

text \<open>
  \<^verbatim>\<open>calc_fun_and_grad\<close> writes \<^verbatim>\<open>*f\<close> and \<^verbatim>\<open>grad\<close>; the model returns the pair. The loop
  carries the gradient and \<^verbatim>\<open>lsum\<close> together, as the source does.
\<close>

definition calc_fun_and_grad :: "real list \<Rightarrow> fdata \<Rightarrow> real \<times> real list" where
  "calc_fun_and_grad a_row fun_data =
     (let k_int = fd_k fun_data;
          k = k_int;
          (grad, lsum) =
            fold (\<lambda>ix (grad, lsum).
                    (let pred = cblas_ddot k_int a_row
                                  (vec k (fd_X_ind fun_data ! ix * k) (fd_B fun_data))
                     in (cblas_daxpy k_int (- fd_Xr fun_data ! ix / pred)
                           (vec k (fd_X_ind fun_data ! ix * k) (fd_B fun_data)) grad,
                         lsum + fd_Xr fun_data ! ix * ln pred)))
                 [0..<fd_nnz_this fun_data] (replicate k 0, 0);
          grad = (if fd_w_mult fun_data \<noteq> 1
                  then cblas_dscal k_int (fd_w_mult fun_data) grad else grad);
          grad = cblas_daxpy k_int 1 (fd_Bsum fun_data) grad;
          reg_term = cblas_ddot k_int (fd_Bsum fun_data) a_row;
          grad = cblas_daxpy k_int (2 * fd_l2_reg fun_data) a_row grad
      in (reg_term - lsum * fd_w_mult fun_data, grad))"

subsection \<open>Projected gradient\<close>

definition calc_grad_pgd ::
  "real list \<Rightarrow> real list \<Rightarrow> real list \<Rightarrow> sparse_ix list \<Rightarrow> sparse_ix \<Rightarrow> nat \<Rightarrow> real list" where
  "calc_grad_pgd curr_row F X Xind nnz_this k =
     (let k_szt = k;
          out = replicate k 0
      in fold (\<lambda>ix out.
                 cblas_daxpy k (X ! ix / cblas_ddot k (vec k (Xind ! ix * k_szt) F) curr_row)
                   (vec k (Xind ! ix * k_szt) F) out)
              [0..<nnz_this] out)"

text \<open>
  The body of the loop over \<^verbatim>\<open>p\<close> in \<^verbatim>\<open>pg_iteration\<close> (one update of row \<open>ia\<close>):
  the gradient goes to the scratch buffer, then three BLAS calls and the clip work
  in place on \<^verbatim>\<open>A + ia*k\<close>.
\<close>

definition pg_update ::
  "real list \<Rightarrow> real list \<Rightarrow> sparse_ix list \<Rightarrow> sparse_ix list \<Rightarrow> nat \<Rightarrow> real \<Rightarrow> real list
   \<Rightarrow> real \<Rightarrow> nat \<Rightarrow> sparse_ix \<Rightarrow> real list \<Rightarrow> real list" where
  "pg_update B Xr Xr_indptr Xr_indices k cnst_div Bsum step_size ia nnz_this A =
     (let buffer_arr = calc_grad_pgd (vec k (ia * k) A) B (drop (Xr_indptr ! ia) Xr)
                         (drop (Xr_indptr ! ia) Xr_indices) nnz_this k;
          A = store (ia * k) (cblas_daxpy k step_size buffer_arr (vec k (ia * k) A)) A;
          A = store (ia * k) (cblas_daxpy k 1 Bsum (vec k (ia * k) A)) A;
          A = store (ia * k) (cblas_dscal k cnst_div (vec k (ia * k) A)) A
      in fold (\<lambda>ix A. A[ia * k + ix := nonneg (A ! (ia * k + ix))]) [0..<k] A)"

text \<open>
  \<^verbatim>\<open>Bsum_user\<close> is the null pointer when \<open>w_mult = 1\<close>; the model passes \<open>[]\<close> then,
  and the code does not read it in that case. The row's number of nonzeros is a
  difference of offsets, which the data model orders
  (\<open>Xr_indptr ! ia \<le> Xr_indptr ! (ia + 1)\<close>).
\<close>

definition pg_iteration ::
  "real list \<Rightarrow> real list \<Rightarrow> real list \<Rightarrow> sparse_ix list \<Rightarrow> sparse_ix list \<Rightarrow> nat \<Rightarrow> nat
   \<Rightarrow> real \<Rightarrow> real list \<Rightarrow> real list \<Rightarrow> real \<Rightarrow> real \<Rightarrow> nat \<Rightarrow> real list" where
  "pg_iteration A B Xr Xr_indptr Xr_indices dimA k cnst_div cnst_sum Bsum_user
                step_size w_mult maxupd =
     (let step_size = step_size * w_mult
      in fold (\<lambda>ia A.
                 (let nnz_this = Xr_indptr ! (ia + 1) - Xr_indptr ! ia;
                      Bsum = (if w_mult \<noteq> 1 then vec k (ia * k) Bsum_user else cnst_sum)
                  in fold (\<lambda>p A. pg_update B Xr Xr_indptr Xr_indices k cnst_div Bsum
                                    step_size ia nnz_this A)
                          [0..<maxupd] A))
              [0..<dimA] A)"

subsection \<open>Conjugate gradient and truncated Newton\<close>

text \<open>
  Modelled from the spec: the two per-row minimizers \<^verbatim>\<open>minimize_nonneg_cg\<close> and
  \<^verbatim>\<open>tnc\<close> are not in the source file. The spec gives their contract only (from an
  initial point, an evaluator callback with its opaque per-row context and an
  iteration budget they return the point moved toward a minimum, within the
  non-negativity bounds), so they are parameters of the model. The parameter
  receives what the call site passes and depends on the run: the point, its
  length, the callbacks, the context, \<^verbatim>\<open>maxupd\<close> and \<^verbatim>\<open>limit_step\<close> (for \<^verbatim>\<open>tnc\<close>: the
  bound arrays, \<^verbatim>\<open>maxCGit\<close> and \<^verbatim>\<open>maxupd\<close> as an \<^verbatim>\<open>int\<close>); the remaining arguments are literal
  constants. It returns the new content of the point. An upper bound of
  \<^verbatim>\<open>HUGE_VAL\<close> is \<open>None\<close>.
\<close>

type_synonym cg_minimizer =
  "real list \<Rightarrow> nat \<Rightarrow> (real list \<Rightarrow> nat \<Rightarrow> fdata \<Rightarrow> real)
   \<Rightarrow> (real list \<Rightarrow> nat \<Rightarrow> fdata \<Rightarrow> real list) \<Rightarrow> fdata \<Rightarrow> nat \<Rightarrow> bool \<Rightarrow> real list"

type_synonym tnc_minimizer =
  "nat \<Rightarrow> real list \<Rightarrow> (real list \<Rightarrow> fdata \<Rightarrow> real \<times> real list) \<Rightarrow> fdata
   \<Rightarrow> real list \<Rightarrow> real option list \<Rightarrow> nat \<Rightarrow> int \<Rightarrow> real list"

definition grad_fun :: "real \<Rightarrow> real list \<Rightarrow> nat \<Rightarrow> fdata \<Rightarrow> real list" where
  "grad_fun w_mult = (if w_mult = 1 then calc_grad_single else calc_grad_single_w)"

text \<open>
  The per-row context both iterations build: the \<^verbatim>\<open>firstprivate\<close> copy of \<^verbatim>\<open>data\<close>
  with the three row fields set, and \<^verbatim>\<open>Bsum\<close> redirected to the row of \<^verbatim>\<open>Bsum_w\<close> when
  \<open>w_mult \<noteq> 1\<close>.
\<close>

definition row_data ::
  "real list \<Rightarrow> real list \<Rightarrow> sparse_ix list \<Rightarrow> sparse_ix list \<Rightarrow> nat \<Rightarrow> real list \<Rightarrow> real
   \<Rightarrow> real \<Rightarrow> real list \<Rightarrow> nat \<Rightarrow> fdata" where
  "row_data B Xr Xr_indptr Xr_indices k Bsum l2_reg w_mult Bsum_w ia =
     (let data = \<lparr>fd_B = B, fd_Bsum = Bsum, fd_Xr = [], fd_X_ind = [], fd_nnz_this = 0,
                  fd_l2_reg = l2_reg, fd_w_mult = w_mult, fd_k = k\<rparr>;
          data = data\<lparr>fd_Xr := drop (Xr_indptr ! ia) Xr\<rparr>;
          data = data\<lparr>fd_X_ind := drop (Xr_indptr ! ia) Xr_indices\<rparr>;
          data = data\<lparr>fd_nnz_this := Xr_indptr ! (ia + 1) - Xr_indptr ! ia\<rparr>
      in if w_mult \<noteq> 1 then data\<lparr>fd_Bsum := vec k (ia * k) Bsum_w\<rparr> else data)"

definition cg_iteration ::
  "cg_minimizer \<Rightarrow> real list \<Rightarrow> real list \<Rightarrow> real list \<Rightarrow> sparse_ix list \<Rightarrow> sparse_ix list
   \<Rightarrow> nat \<Rightarrow> nat \<Rightarrow> bool \<Rightarrow> real list \<Rightarrow> real \<Rightarrow> real \<Rightarrow> nat \<Rightarrow> real list \<Rightarrow> real list" where
  "cg_iteration minimize_nonneg_cg A B Xr Xr_indptr Xr_indices dimA k limit_step
                Bsum l2_reg w_mult maxupd Bsum_w =
     fold (\<lambda>ia A.
             store (ia * k)
               (minimize_nonneg_cg (vec k (ia * k) A) k calc_fun_single (grad_fun w_mult)
                  (row_data B Xr Xr_indptr Xr_indices k Bsum l2_reg w_mult Bsum_w ia)
                  maxupd limit_step)
               A)
          [0..<dimA] A"

text \<open>
  \<^verbatim>\<open>maxCGit = (int) fmax(1., fmin(50., (double)k/2.))\<close>: the truncation of a value
  in \<open>[1, 50]\<close>.
\<close>

definition maxCGit :: "nat \<Rightarrow> nat" where
  "maxCGit k = nat \<lfloor>max (1::real) (min 50 (real k / 2))\<rfloor>"

definition tncg_iteration ::
  "tnc_minimizer \<Rightarrow> real list \<Rightarrow> real list \<Rightarrow> real list \<Rightarrow> sparse_ix list \<Rightarrow> sparse_ix list
   \<Rightarrow> nat \<Rightarrow> nat \<Rightarrow> real list \<Rightarrow> real \<Rightarrow> real \<Rightarrow> int \<Rightarrow> real list \<Rightarrow> real option list
   \<Rightarrow> real list \<Rightarrow> real list" where
  "tncg_iteration tnc A B Xr Xr_indptr Xr_indices dimA k Bsum l2_reg w_mult maxupd
                  zeros_tncg inf_tncg Bsum_w =
     fold (\<lambda>ia A.
             store (ia * k)
               (tnc k (vec k (ia * k) A) calc_fun_and_grad
                  (row_data B Xr Xr_indptr Xr_indices k Bsum l2_reg w_mult Bsum_w ia)
                  zeros_tncg inf_tncg (maxCGit k) maxupd)
               A)
          [0..<dimA] A"

subsection \<open>The driver \<^verbatim>\<open>run_poismf\<close>\<close>

text \<open>
  The read-only arguments of \<^verbatim>\<open>run_poismf\<close> (\<^verbatim>\<open>nthreads\<close> only sizes the scratch
  buffers and is left out). \<open>A\<close>, \<open>B\<close> and \<open>step_size\<close> change during the run and
  live in the loop state.
\<close>

record poismf_args =
  p_Xr :: "real list"
  p_Xr_indptr :: "sparse_ix list"
  p_Xr_indices :: "sparse_ix list"
  p_Xc :: "real list"
  p_Xc_indptr :: "sparse_ix list"
  p_Xc_indices :: "sparse_ix list"
  p_dimA :: nat
  p_dimB :: nat
  p_k :: nat
  p_l2_reg :: real
  p_l1_reg :: real
  p_w_mult :: real
  p_method :: Method
  p_limit_step :: bool
  p_numiter :: nat
  p_maxupd :: nat

text \<open>
  What the run takes from outside: the two minimizers, the outcome of each
  \<^verbatim>\<open>malloc\<close>/\<^verbatim>\<open>calloc\<close> (\<open>True\<close>: a non-null pointer), and the interrupts.
  \<^verbatim>\<open>set_interrup_global_variable\<close> sets the global \<^verbatim>\<open>should_stop_procedure\<close>
  asynchronously; \<open>env_sigint env n\<close> says whether it has run between the previous
  read of the flag (for \<open>n = 0\<close>: the reset at the start of \<^verbatim>\<open>run_poismf\<close>) and the
  \<open>n\<close>-th read, reads counted from 0 (two per outer iteration).
\<close>

datatype buffer =
  Buf_cnst_sum | Buf_buffer_arr | Buf_Bsum_w | Buf_buffer_int | Buf_zeros_tncg | Buf_inf_tncg

record poismf_env =
  env_minimize_nonneg_cg :: cg_minimizer
  env_tnc :: tnc_minimizer
  env_malloc_ok :: "buffer \<Rightarrow> bool"
  env_sigint :: "nat \<Rightarrow> bool"

record poismf_state =
  st_A :: "real list"
  st_B :: "real list"
  st_step_size :: real
  st_neg_step_sz :: real
  should_stop_procedure :: bool

record poismf_result =
  ret_code :: int
  res_A :: "real list"
  res_B :: "real list"
  res_should_stop_procedure :: bool
  res_live :: "buffer list"

text \<open>
  The constants both half-iterations compute first (\<^verbatim>\<open>sum_by_cols\<close>, the L1
  constant, \<^verbatim>\<open>adjustment_Bsum\<close>), written for the first half; the second half runs
  the same statements with the roles swapped. \<^verbatim>\<open>Bsum_w\<close> stays the null pointer
  (\<open>[]\<close>) when \<open>w_mult = 1\<close>.
\<close>

definition aggregate_stats ::
  "real list \<Rightarrow> nat \<Rightarrow> sparse_ix list \<Rightarrow> sparse_ix list \<Rightarrow> nat \<Rightarrow> nat \<Rightarrow> real \<Rightarrow> real
   \<Rightarrow> real list \<times> real list" where
  "aggregate_stats B dimB Xr_indices Xr_indptr dimA k l1_reg w_mult =
     (let cnst_sum = sum_by_cols B dimB k;
          cnst_sum = (if l1_reg > 0
                      then fold (\<lambda>kk cnst_sum. cnst_sum[kk := cnst_sum ! kk + l1_reg])
                             [0..<k] cnst_sum
                      else cnst_sum);
          Bsum_w = (if w_mult \<noteq> 1
                    then adjustment_Bsum B cnst_sum Xr_indices Xr_indptr dimA k w_mult
                    else [])
      in (cnst_sum, Bsum_w))"

definition update_A :: "poismf_env \<Rightarrow> poismf_args \<Rightarrow> real \<Rightarrow> poismf_state \<Rightarrow> poismf_state" where
  "update_A env P cnst_div st =
     (let (cnst_sum, Bsum_w) =
            aggregate_stats (st_B st) (p_dimB P) (p_Xr_indices P) (p_Xr_indptr P)
              (p_dimA P) (p_k P) (p_l1_reg P) (p_w_mult P)
      in case p_method P of
           pg \<Rightarrow>
             (let cnst_sum = (if p_w_mult P = 1
                              then cblas_dscal (p_k P) (st_neg_step_sz st) cnst_sum
                              else cnst_sum);
                  Bsum_w = (if p_w_mult P = 1 then Bsum_w
                            else dscal_large (p_dimA P * p_k P) (st_neg_step_sz st) Bsum_w);
                  cnst_sum = cblas_dscal (p_k P) (st_neg_step_sz st) cnst_sum
              in st\<lparr>st_A := pg_iteration (st_A st) (st_B st) (p_Xr P) (p_Xr_indptr P)
                               (p_Xr_indices P) (p_dimA P) (p_k P) cnst_div cnst_sum Bsum_w
                               (st_step_size st) (p_w_mult P) (p_maxupd P)\<rparr>)
         | cg \<Rightarrow>
             st\<lparr>st_A := cg_iteration (env_minimize_nonneg_cg env) (st_A st) (st_B st)
                           (p_Xr P) (p_Xr_indptr P) (p_Xr_indices P) (p_dimA P) (p_k P)
                           (p_limit_step P) cnst_sum (p_l2_reg P) (p_w_mult P) (p_maxupd P)
                           Bsum_w\<rparr>
         | tncg \<Rightarrow>
             st\<lparr>st_A := tncg_iteration (env_tnc env) (st_A st) (st_B st)
                           (p_Xr P) (p_Xr_indptr P) (p_Xr_indices P) (p_dimA P) (p_k P)
                           cnst_sum (p_l2_reg P) (p_w_mult P) (size_t_to_int (p_maxupd P))
                           (replicate (p_k P) 0) (replicate (p_k P) None) Bsum_w\<rparr>)"

definition update_B :: "poismf_env \<Rightarrow> poismf_args \<Rightarrow> real \<Rightarrow> poismf_state \<Rightarrow> poismf_state" where
  "update_B env P cnst_div st =
     (let (cnst_sum, Bsum_w) =
            aggregate_stats (st_A st) (p_dimA P) (p_Xc_indices P) (p_Xc_indptr P)
              (p_dimB P) (p_k P) (p_l1_reg P) (p_w_mult P)
      in case p_method P of
           pg \<Rightarrow>
             (let cnst_sum = (if p_w_mult P = 1
                              then cblas_dscal (p_k P) (st_neg_step_sz st) cnst_sum
                              else cnst_sum);
                  Bsum_w = (if p_w_mult P = 1 then Bsum_w
                            else dscal_large (p_dimB P * p_k P) (st_neg_step_sz st) Bsum_w);
                  st = st\<lparr>st_B := pg_iteration (st_B st) (st_A st) (p_Xc P) (p_Xc_indptr P)
                                    (p_Xc_indices P) (p_dimB P) (p_k P) cnst_div cnst_sum
                                    Bsum_w (st_step_size st) (p_w_mult P) (p_maxupd P)\<rparr>;
                  st = st\<lparr>st_step_size := st_step_size st * 0.5\<rparr>
              in st\<lparr>st_neg_step_sz := - st_step_size st\<rparr>)
         | cg \<Rightarrow>
             st\<lparr>st_B := cg_iteration (env_minimize_nonneg_cg env) (st_B st) (st_A st)
                           (p_Xr P) (p_Xc_indptr P) (p_Xc_indices P) (p_dimB P) (p_k P)
                           (p_limit_step P) cnst_sum (p_l2_reg P) (p_w_mult P) (p_maxupd P)
                           Bsum_w\<rparr>
         | tncg \<Rightarrow>
             st\<lparr>st_B := tncg_iteration (env_tnc env) (st_B st) (st_A st)
                           (p_Xc P) (p_Xc_indptr P) (p_Xc_indices P) (p_dimB P) (p_k P)
                           cnst_sum (p_l2_reg P) (p_w_mult P) (size_t_to_int (p_maxupd P))
                           (replicate (p_k P) 0) (replicate (p_k P) None) Bsum_w\<rparr>)"

text \<open>
  \<^verbatim>\<open>signal(SIGINT, ...); if (should_stop_procedure) goto cleanup;\<close>: the \<open>n\<close>-th
  read of the flag sees it set if it was set before or an interrupt came since.
\<close>

definition poll :: "poismf_env \<Rightarrow> nat \<Rightarrow> poismf_state \<Rightarrow> poismf_state" where
  "poll env n st = st\<lparr>should_stop_procedure := should_stop_procedure st \<or> env_sigint env n\<rparr>"

text \<open>
  The loop over \<^verbatim>\<open>fulliter\<close>; the first argument counts the iterations left
  (\<open>numiter - fulliter\<close>). A set flag leaves the loop (\<^verbatim>\<open>goto cleanup\<close>).
\<close>

fun main_loop :: "poismf_env \<Rightarrow> poismf_args \<Rightarrow> nat \<Rightarrow> nat \<Rightarrow> poismf_state \<Rightarrow> poismf_state" where
  "main_loop env P 0 fulliter st = st"
| "main_loop env P (Suc n) fulliter st =
     (let st = poll env (2 * fulliter) st
      in if should_stop_procedure st then st
         else
           (let cnst_div = 1 / (1 + 2 * p_l2_reg P * st_step_size st);
                st = update_A env P cnst_div st;
                st = poll env (2 * fulliter + 1) st
            in if should_stop_procedure st then st
               else main_loop env P n (Suc fulliter) (update_B env P cnst_div st)))"

text \<open>
  The allocations before the loop: the buffers that are live afterwards, and
  whether control reached \<^verbatim>\<open>throw_oom\<close>.
\<close>

definition malloc :: "poismf_env \<Rightarrow> buffer \<Rightarrow> buffer list" where
  "malloc env b = (if env_malloc_ok env b then [b] else [])"

definition allocate :: "poismf_env \<Rightarrow> poismf_args \<Rightarrow> buffer list \<times> bool" where
  "allocate env P =
     (let live = malloc env Buf_cnst_sum;
          live = live @ malloc env Buf_buffer_arr
      in if p_w_mult P \<noteq> 1 \<and> \<not> env_malloc_ok env Buf_Bsum_w then (live, True)
         else
           (let live = (if p_w_mult P \<noteq> 1 then live @ malloc env Buf_Bsum_w else live)
            in if p_method P = tncg
               then
                 (let live = live @ malloc env Buf_buffer_int;
                      live = live @ malloc env Buf_zeros_tncg;
                      live = live @ malloc env Buf_inf_tncg
                  in if \<not> env_malloc_ok env Buf_buffer_int
                        \<or> \<not> env_malloc_ok env Buf_zeros_tncg
                        \<or> \<not> env_malloc_ok env Buf_inf_tncg
                     then (live, True)
                     else (live, \<not> env_malloc_ok env Buf_buffer_arr
                                  \<or> \<not> env_malloc_ok env Buf_cnst_sum))
               else (live, \<not> env_malloc_ok env Buf_buffer_arr
                            \<or> \<not> env_malloc_ok env Buf_cnst_sum)))"

definition free :: "buffer \<Rightarrow> buffer list \<Rightarrow> buffer list" where
  "free b live = removeAll b live"

text \<open>
  \<^verbatim>\<open>run_poismf\<close>: \<open>flag0\<close> is the value of the global flag when the call starts.
  The result holds the return code, the two matrices, the flag and the buffers
  still allocated at the return.
\<close>

definition run_poismf ::
  "poismf_env \<Rightarrow> bool \<Rightarrow> poismf_args \<Rightarrow> real list \<Rightarrow> real list \<Rightarrow> real \<Rightarrow> poismf_result" where
  "run_poismf env flag0 P A B step_size =
     (let (live, oom) = allocate env P;
          st = \<lparr>st_A = A, st_B = B, st_step_size = step_size,
                st_neg_step_sz = - step_size, should_stop_procedure = flag0\<rparr>;
          st = st\<lparr>should_stop_procedure := False\<rparr>;
          ret_code = (if oom then 1 else 0);
          st = (if oom then st else main_loop env P (p_numiter P) 0 st);
          live = free Buf_cnst_sum live;
          live = free Buf_buffer_arr live;
          live = free Buf_buffer_int live;
          live = free Buf_Bsum_w live;
          live = free Buf_zeros_tncg live;
          live = free Buf_inf_tncg live;
          st = st\<lparr>should_stop_procedure := False\<rparr>
      in \<lparr>ret_code = ret_code, res_A = st_A st, res_B = st_B st,
          res_should_stop_procedure = should_stop_procedure st, res_live = live\<rparr>)"

subsection \<open>The formulas of the specification\<close>

text \<open>
  The row objective and its gradient in the spec's words, for a row \<open>a\<close>, aggregate
  vector \<open>S\<close>, and the row's \<open>nnz\<close> nonzeros with values \<open>x\<close> and columns \<open>cols\<close>;
  \<open>B[col]\<close> is row \<open>col\<close> of the fixed matrix. The gradient is given by coordinate.
\<close>

definition spec_value ::
  "real list \<Rightarrow> real \<Rightarrow> real \<Rightarrow> nat \<Rightarrow> real list \<Rightarrow> real list \<Rightarrow> sparse_ix list \<Rightarrow> nat
   \<Rightarrow> real list \<Rightarrow> real" where
  "spec_value S l2 weight k B x cols nnz a =
     cblas_ddot k S a + l2 * cblas_ddot k a a
     - weight * (\<Sum>ix<nnz. x ! ix * ln (cblas_ddot k a (vec k (cols ! ix * k) B)))"

definition spec_gradient ::
  "real list \<Rightarrow> real \<Rightarrow> real \<Rightarrow> nat \<Rightarrow> real list \<Rightarrow> real list \<Rightarrow> sparse_ix list \<Rightarrow> nat
   \<Rightarrow> real list \<Rightarrow> nat \<Rightarrow> real" where
  "spec_gradient S l2 weight k B x cols nnz a c =
     S ! c + 2 * l2 * a ! c
     - weight * (\<Sum>ix<nnz. x ! ix / cblas_ddot k a (vec k (cols ! ix * k) B)
                            * vec k (cols ! ix * k) B ! c)"

text \<open>A one-entry row context with \<open>l2_reg = 1\<close> and predicted value \<open>1\<close>.\<close>

definition unit_row_data :: fdata where
  "unit_row_data =
     \<lparr>fd_B = [1], fd_Bsum = [1], fd_Xr = [1], fd_X_ind = [0], fd_nnz_this = 1,
      fd_l2_reg = 1, fd_w_mult = 1, fd_k = 1\<rparr>"

subsection \<open>Reference notions for the driver\<close>

text \<open>
  The buffers a configuration needs, in the spec's words: the aggregate vector and
  the scratch buffer always, the weighted-correction matrix when the weight is not
  1, the three auxiliary buffers for truncated Newton.
\<close>

definition buffers_needed :: "poismf_args \<Rightarrow> buffer list" where
  "buffers_needed P =
     [Buf_cnst_sum, Buf_buffer_arr]
     @ (if p_w_mult P \<noteq> 1 then [Buf_Bsum_w] else [])
     @ (if p_method P = tncg then [Buf_buffer_int, Buf_zeros_tncg, Buf_inf_tncg] else [])"

text \<open>
  The state in which the loop starts, and the loop without its reads of the flag:
  \<open>run_halves env P c h st\<close> runs \<open>c\<close> half-iterations from \<open>st\<close>, the first being
  half-iteration number \<open>h\<close> of the run (even: the \<open>A\<close> half, odd: the \<open>B\<close> half).
  \<^verbatim>\<open>cnst_div\<close> is the value computed at the top of the outer iteration; the \<open>A\<close> half
  does not change the step size, so the \<open>B\<close> half finds the same value.
\<close>

definition init_state :: "real list \<Rightarrow> real list \<Rightarrow> real \<Rightarrow> poismf_state" where
  "init_state A B step_size =
     \<lparr>st_A = A, st_B = B, st_step_size = step_size, st_neg_step_sz = - step_size,
      should_stop_procedure = False\<rparr>"

definition cnst_div_of :: "poismf_args \<Rightarrow> poismf_state \<Rightarrow> real" where
  "cnst_div_of P st = 1 / (1 + 2 * p_l2_reg P * st_step_size st)"

definition half_step :: "poismf_env \<Rightarrow> poismf_args \<Rightarrow> nat \<Rightarrow> poismf_state \<Rightarrow> poismf_state" where
  "half_step env P h st =
     (if even h then update_A env P (cnst_div_of P st) st
      else update_B env P (cnst_div_of P st) st)"

fun run_halves :: "poismf_env \<Rightarrow> poismf_args \<Rightarrow> nat \<Rightarrow> nat \<Rightarrow> poismf_state \<Rightarrow> poismf_state" where
  "run_halves env P 0 h st = st"
| "run_halves env P (Suc c) h st = run_halves env P c (Suc h) (half_step env P h st)"

subsection \<open>Concrete inputs\<close>

text \<open>
  The end-to-end scenario of the spec: \<open>dimA = dimB = 2\<close>, \<open>k = 1\<close>, \<open>X\<close> the identity
  (in both views one nonzero of value 1 per row), no regularisation, weight 1,
  projected gradient, one update per row, one outer iteration. The evaluation of
  runs goes through the simplifier with the code equations, which has no use for
  an equation of the logarithm.
\<close>

declare raw_ln_real_def [code del]

definition scenario :: poismf_args where
  "scenario =
     \<lparr>p_Xr = [1, 1], p_Xr_indptr = [0, 1, 2], p_Xr_indices = [0, 1],
      p_Xc = [1, 1], p_Xc_indptr = [0, 1, 2], p_Xc_indices = [0, 1],
      p_dimA = 2, p_dimB = 2, p_k = 1, p_l2_reg = 0, p_l1_reg = 0, p_w_mult = 1,
      p_method = pg, p_limit_step = False, p_numiter = 1, p_maxupd = 1\<rparr>"

text \<open>
  An environment whose minimizers only project the starting point onto the bounds
  (\<^verbatim>\<open>minimize_nonneg_cg\<close>: onto the non-negative orthant; \<^verbatim>\<open>tnc\<close>: onto the lower
  bounds it is given), with given allocation outcomes and interrupts.
\<close>

definition clip_env :: "(buffer \<Rightarrow> bool) \<Rightarrow> (nat \<Rightarrow> bool) \<Rightarrow> poismf_env" where
  "clip_env ok sig =
     \<lparr>env_minimize_nonneg_cg = (\<lambda>x n f g d maxiter limit_step. map nonneg x),
      env_tnc = (\<lambda>n x f d low up maxCGit maxnfeval.
                   map (\<lambda>c. max (low ! c) (x ! c)) [0..<length x]),
      env_malloc_ok = ok, env_sigint = sig\<rparr>"

text \<open>
  A configuration for conjugate gradient on the matrix \<open>X\<close> with rows \<open>[0, 5]\<close> and
  \<open>[7, 0]\<close>, whose row view lists the values \<open>5, 7\<close> and whose column view lists
  \<open>7, 5\<close>; and an environment whose minimizers return the gradient the callback
  reports at the starting point, which makes the data a callback receives visible
  in the result.
\<close>

definition cg_case :: poismf_args where
  "cg_case =
     \<lparr>p_Xr = [5, 7], p_Xr_indptr = [0, 1, 2], p_Xr_indices = [1, 0],
      p_Xc = [7, 5], p_Xc_indptr = [0, 1, 2], p_Xc_indices = [1, 0],
      p_dimA = 2, p_dimB = 2, p_k = 1, p_l2_reg = 0, p_l1_reg = 0, p_w_mult = 1,
      p_method = cg, p_limit_step = False, p_numiter = 1, p_maxupd = 1\<rparr>"

definition probe_env :: poismf_env where
  "probe_env =
     \<lparr>env_minimize_nonneg_cg = (\<lambda>x n f g d maxiter limit_step. g x n d),
      env_tnc = (\<lambda>n x f d low up maxCGit maxnfeval. snd (f x d)),
      env_malloc_ok = (\<lambda>b. True), env_sigint = (\<lambda>n. False)\<rparr>"

subsection \<open>Reference notions for the row solvers\<close>

text \<open>
  The mirrored call of the spec's role symmetry: the transposed input (the two
  views and the two dimensions exchanged) and the two matrices exchanged.
\<close>

definition mirror :: "poismf_args \<Rightarrow> poismf_args" where
  "mirror P =
     P\<lparr>p_Xr := p_Xc P, p_Xr_indptr := p_Xc_indptr P, p_Xr_indices := p_Xc_indices P,
       p_Xc := p_Xr P, p_Xc_indptr := p_Xr_indptr P, p_Xc_indices := p_Xr_indices P,
       p_dimA := p_dimB P, p_dimB := p_dimA P\<rparr>"

definition mirror_state :: "poismf_state \<Rightarrow> poismf_state" where
  "mirror_state st = st\<lparr>st_A := st_B st, st_B := st_A st\<rparr>"

text \<open>
  The projected-gradient update in the spec's words, for a row \<open>a\<close> of length \<open>k\<close>:
  \<open>nonneg((a + step * gradAscent(a) - step * S) / (1 + 2 * l2 * step))\<close>, where
  \<open>gradAscent(a)\<close> sums \<open>x / dot(a, B[col]) * B[col]\<close> over the row's nonzeros.
\<close>

definition spec_pg_update ::
  "real list \<Rightarrow> real \<Rightarrow> real \<Rightarrow> nat \<Rightarrow> real list \<Rightarrow> real list \<Rightarrow> sparse_ix list \<Rightarrow> nat
   \<Rightarrow> real list \<Rightarrow> real list" where
  "spec_pg_update S l2 step k B x cols nnz a =
     map (\<lambda>c. nonneg
                ((a ! c
                  + step * (\<Sum>ix<nnz. x ! ix / cblas_ddot k a (vec k (cols ! ix * k) B)
                                         * vec k (cols ! ix * k) B ! c)
                  - step * S ! c)
                 / (1 + 2 * l2 * step)))
         [0..<k]"

text \<open>
  What one pass of the body of \<^verbatim>\<open>pg_iteration\<close>'s inner loop does to the slice of its
  row: the statements of \<open>pg_update\<close> composed on the slice.
\<close>

definition pg_row ::
  "real list \<Rightarrow> real list \<Rightarrow> sparse_ix list \<Rightarrow> sparse_ix \<Rightarrow> nat \<Rightarrow> real \<Rightarrow> real list \<Rightarrow> real
   \<Rightarrow> real list \<Rightarrow> real list" where
  "pg_row B X Xind nnz_this k cnst_div Bsum step_size a =
     map nonneg
       (cblas_dscal k cnst_div
          (cblas_daxpy k 1 Bsum
             (cblas_daxpy k step_size (calc_grad_pgd a B X Xind nnz_this k) a)))"

text \<open>
  The predicted values that \<^verbatim>\<open>calc_grad_pgd\<close> divides by, for a row \<open>a\<close> with \<open>nnz\<close>
  nonzeros in the columns \<open>cols\<close>, are strictly positive.
\<close>

definition dots_positive :: "nat \<Rightarrow> real list \<Rightarrow> sparse_ix list \<Rightarrow> nat \<Rightarrow> real list \<Rightarrow> bool" where
  "dots_positive k B cols nnz a \<longleftrightarrow>
     (\<forall>ix<nnz. 0 < cblas_ddot k a (vec k (cols ! ix * k) B))"

text \<open>
  The arguments of the two calls of \<^verbatim>\<open>pg_iteration\<close> in \<^verbatim>\<open>run_poismf\<close>, as the \<^verbatim>\<open>pg\<close>
  branches prepare them from the aggregate statistics when \<^verbatim>\<open>neg_step_sz\<close> is \<open>- s\<close>.
  In the \<open>A\<close> half (lines 439 to 442) \<^verbatim>\<open>cnst_sum\<close> is scaled by \<^verbatim>\<open>neg_step_sz\<close> inside
  the test of the weight and once more after it; in the \<open>B\<close> half (lines 485 to
  488) only inside the test. With a weight other than 1 the per-row statistics
  \<^verbatim>\<open>Bsum_w\<close> are scaled instead.
\<close>

definition pg_cnst_sum_A :: "poismf_args \<Rightarrow> real \<Rightarrow> real list \<Rightarrow> real list" where
  "pg_cnst_sum_A P s B =
     cblas_dscal (p_k P) (- s)
       (if p_w_mult P = 1
        then cblas_dscal (p_k P) (- s)
               (fst (aggregate_stats B (p_dimB P) (p_Xr_indices P) (p_Xr_indptr P)
                       (p_dimA P) (p_k P) (p_l1_reg P) (p_w_mult P)))
        else fst (aggregate_stats B (p_dimB P) (p_Xr_indices P) (p_Xr_indptr P)
                    (p_dimA P) (p_k P) (p_l1_reg P) (p_w_mult P)))"

definition pg_Bsum_w_A :: "poismf_args \<Rightarrow> real \<Rightarrow> real list \<Rightarrow> real list" where
  "pg_Bsum_w_A P s B =
     (if p_w_mult P = 1
      then snd (aggregate_stats B (p_dimB P) (p_Xr_indices P) (p_Xr_indptr P)
                  (p_dimA P) (p_k P) (p_l1_reg P) (p_w_mult P))
      else dscal_large (p_dimA P * p_k P) (- s)
             (snd (aggregate_stats B (p_dimB P) (p_Xr_indices P) (p_Xr_indptr P)
                     (p_dimA P) (p_k P) (p_l1_reg P) (p_w_mult P))))"

definition pg_cnst_sum_B :: "poismf_args \<Rightarrow> real \<Rightarrow> real list \<Rightarrow> real list" where
  "pg_cnst_sum_B P s A =
     (if p_w_mult P = 1
      then cblas_dscal (p_k P) (- s)
             (fst (aggregate_stats A (p_dimA P) (p_Xc_indices P) (p_Xc_indptr P)
                     (p_dimB P) (p_k P) (p_l1_reg P) (p_w_mult P)))
      else fst (aggregate_stats A (p_dimA P) (p_Xc_indices P) (p_Xc_indptr P)
                  (p_dimB P) (p_k P) (p_l1_reg P) (p_w_mult P)))"

definition pg_Bsum_w_B :: "poismf_args \<Rightarrow> real \<Rightarrow> real list \<Rightarrow> real list" where
  "pg_Bsum_w_B P s A =
     (if p_w_mult P = 1
      then snd (aggregate_stats A (p_dimA P) (p_Xc_indices P) (p_Xc_indptr P)
                  (p_dimB P) (p_k P) (p_l1_reg P) (p_w_mult P))
      else dscal_large (p_dimB P * p_k P) (- s)
             (snd (aggregate_stats A (p_dimA P) (p_Xc_indices P) (p_Xc_indptr P)
                     (p_dimB P) (p_k P) (p_l1_reg P) (p_w_mult P))))"

text \<open>
  One pass of the inner loop of \<^verbatim>\<open>pg_iteration\<close> on row \<open>ia\<close> of \<open>A\<close> (row \<open>ib\<close> of
  \<open>B\<close>) as the half-iteration calls it at step \<open>s\<close>: \<open>pg_row\<close> on the row's view of
  the sparse input, with \<^verbatim>\<open>cnst_div = 1 / (1 + 2 * l2_reg * s)\<close>, the statistics above
  (the row's slice of \<^verbatim>\<open>Bsum_w\<close> when the weight is not 1, as \<^verbatim>\<open>pg_iteration\<close> selects
  it) and the gradient step \<^verbatim>\<open>step_size * w_mult\<close>.
\<close>

definition pg_row_A :: "poismf_args \<Rightarrow> real \<Rightarrow> real list \<Rightarrow> nat \<Rightarrow> real list \<Rightarrow> real list" where
  "pg_row_A P s B ia =
     pg_row B (drop (p_Xr_indptr P ! ia) (p_Xr P)) (drop (p_Xr_indptr P ! ia) (p_Xr_indices P))
       (p_Xr_indptr P ! (ia + 1) - p_Xr_indptr P ! ia) (p_k P)
       (1 / (1 + 2 * p_l2_reg P * s))
       (if p_w_mult P \<noteq> 1 then vec (p_k P) (ia * p_k P) (pg_Bsum_w_A P s B)
        else pg_cnst_sum_A P s B)
       (s * p_w_mult P)"

definition pg_row_B :: "poismf_args \<Rightarrow> real \<Rightarrow> real list \<Rightarrow> nat \<Rightarrow> real list \<Rightarrow> real list" where
  "pg_row_B P s A ib =
     pg_row A (drop (p_Xc_indptr P ! ib) (p_Xc P)) (drop (p_Xc_indptr P ! ib) (p_Xc_indices P))
       (p_Xc_indptr P ! (ib + 1) - p_Xc_indptr P ! ib) (p_k P)
       (1 / (1 + 2 * p_l2_reg P * s))
       (if p_w_mult P \<noteq> 1 then vec (p_k P) (ib * p_k P) (pg_Bsum_w_B P s A)
        else pg_cnst_sum_B P s A)
       (s * p_w_mult P)"

text \<open>
  Modelled from the spec: the contract of the two minimizers that the
  non-negativity of the factors rests on. Both work in place on the \<open>k\<close> entries of
  the point; the conjugate-gradient minimizer is the non-negative one, the truncated
  Newton solver keeps each coordinate at or above the lower bound it is given.
\<close>

definition nonneg_minimizers :: "poismf_env \<Rightarrow> bool" where
  "nonneg_minimizers env \<longleftrightarrow>
     (\<forall>x n f g d maxiter limit_step.
         length (env_minimize_nonneg_cg env x n f g d maxiter limit_step) = length x
         \<and> list_all (\<lambda>v. 0 \<le> v) (env_minimize_nonneg_cg env x n f g d maxiter limit_step))
     \<and> (\<forall>n x f d low up maxCGit maxnfeval.
           length (env_tnc env n x f d low up maxCGit maxnfeval) = length x
           \<and> (\<forall>c. c < n \<and> c < length x
                  \<longrightarrow> low ! c \<le> env_tnc env n x f d low up maxCGit maxnfeval ! c))"

text \<open>Well-formed, non-negative factor matrices: the invariant of the run.\<close>

definition state_ok :: "poismf_args \<Rightarrow> poismf_state \<Rightarrow> bool" where
  "state_ok P st \<longleftrightarrow>
     length (st_A st) = p_dimA P * p_k P \<and> length (st_B st) = p_dimB P * p_k P
     \<and> list_all (\<lambda>x. 0 \<le> x) (st_A st) \<and> list_all (\<lambda>x. 0 \<le> x) (st_B st)"

section \<open>Properties\<close>

subsection \<open>BLAS routines and accumulation loops\<close>

lemma length_cblas_daxpy [simp]: "length (cblas_daxpy n alpha x y) = length y"
  by (simp add: cblas_daxpy_def)

lemma nth_cblas_daxpy:
  "i < length y \<Longrightarrow>
   cblas_daxpy n alpha x y ! i = (if i < n then alpha * x ! i + y ! i else y ! i)"
  by (simp add: cblas_daxpy_def)

lemma length_cblas_dscal [simp]: "length (cblas_dscal n alpha x) = length x"
  by (simp add: cblas_dscal_def)

lemma nth_cblas_dscal:
  "i < length x \<Longrightarrow> cblas_dscal n alpha x ! i = (if i < n then alpha * x ! i else x ! i)"
  by (simp add: cblas_dscal_def)

lemma length_fold_daxpy [simp]:
  "length (fold (\<lambda>ix g. cblas_daxpy n (al ix) (v ix) g) xs g) = length g"
  by (induction xs arbitrary: g) simp_all

lemma nth_fold_daxpy:
  "c < length g \<Longrightarrow> c < n \<Longrightarrow>
   fold (\<lambda>ix g. cblas_daxpy n (al ix) (v ix) g) [0..<m] g ! c
     = g ! c + (\<Sum>ix<m. al ix * v ix ! c)"
  by (induction m) (simp_all add: nth_cblas_daxpy)

lemma fold_lsum:
  "fold (\<lambda>ix (lsum::real). lsum + f ix) [0..<m] s = s + (\<Sum>ix<m. f ix)"
  by (induction m) simp_all

lemma fold_grad_lsum:
  "fold (\<lambda>ix (grad, lsum). (G ix grad, lsum + f ix)) xs (g, s)
     = (fold G xs g, fold (\<lambda>ix (lsum::real). lsum + f ix) xs s)"
  by (induction xs arbitrary: g s) simp_all

subsection \<open>The objective and gradient evaluators\<close>

lemma calc_fun_single_eq:
  "calc_fun_single a k d =
     spec_value (fd_Bsum d) (fd_l2_reg d) (fd_w_mult d) k (fd_B d) (fd_Xr d) (fd_X_ind d)
       (fd_nnz_this d) a"
  by (simp add: calc_fun_single_def spec_value_def Let_def fold_lsum mult.commute)

lemma calc_fun_and_grad_fst:
  "fst (calc_fun_and_grad a d) =
     cblas_ddot (fd_k d) (fd_Bsum d) a
     - fd_w_mult d * (\<Sum>ix<fd_nnz_this d. fd_Xr d ! ix
          * ln (cblas_ddot (fd_k d) a (vec (fd_k d) (fd_X_ind d ! ix * fd_k d) (fd_B d))))"
  by (simp add: calc_fun_and_grad_def Let_def fold_grad_lsum fold_lsum mult.commute)

lemma calc_grad_single_nth:
  assumes "c < k" "k \<le> length (fd_Bsum d)"
  shows "calc_grad_single a k d ! c =
     spec_gradient (fd_Bsum d) (fd_l2_reg d) 1 k (fd_B d) (fd_Xr d) (fd_X_ind d)
       (fd_nnz_this d) a c"
  using assms
  by (simp add: calc_grad_single_def spec_gradient_def Let_def nth_fold_daxpy
      nth_cblas_daxpy sum_negf)

lemma calc_grad_single_w_nth:
  assumes "c < k"
  shows "calc_grad_single_w a k d ! c =
     spec_gradient (fd_Bsum d) (fd_l2_reg d) (fd_w_mult d) k (fd_B d) (fd_Xr d) (fd_X_ind d)
       (fd_nnz_this d) a c"
  using assms
  by (simp add: calc_grad_single_w_def spec_gradient_def Let_def nth_fold_daxpy
      nth_cblas_daxpy nth_cblas_dscal sum_negf algebra_simps)

lemma calc_fun_and_grad_snd_nth:
  assumes "c < fd_k d"
  shows "snd (calc_fun_and_grad a d) ! c =
     spec_gradient (fd_Bsum d) (fd_l2_reg d) (fd_w_mult d) (fd_k d) (fd_B d) (fd_Xr d)
       (fd_X_ind d) (fd_nnz_this d) a c"
  using assms
  by (simp add: calc_fun_and_grad_def spec_gradient_def Let_def fold_grad_lsum
      nth_fold_daxpy nth_cblas_daxpy nth_cblas_dscal sum_negf algebra_simps)

text \<open>
  Claim C3. Every objective evaluator returns
  \<open>dot(S, a) + l2 * dot(a, a) - weight * (sum over the nonzeros of x * log(dot(a, B[col])))\<close>.
  \<^verbatim>\<open>calc_fun_single\<close> does (lemma \<open>calc_fun_single_eq\<close>), but \<^verbatim>\<open>calc_fun_and_grad\<close>
  leaves the \<open>l2 * dot(a, a)\<close> term out of the value while its gradient keeps
  \<open>2 * l2 * a\<close>: on the one-entry row with \<open>l2_reg = 1\<close>, \<open>a = [1]\<close> and predicted value
  \<open>1\<close> the formula and \<^verbatim>\<open>calc_fun_single\<close> give \<open>2\<close>, \<^verbatim>\<open>calc_fun_and_grad\<close> gives \<open>1\<close>.
\<close>

theorem calc_fun_and_grad_omits_l2:
  "0 < cblas_ddot (fd_k unit_row_data) [1]
         (vec (fd_k unit_row_data) (fd_X_ind unit_row_data ! 0 * fd_k unit_row_data)
            (fd_B unit_row_data))
   \<and> spec_value (fd_Bsum unit_row_data) (fd_l2_reg unit_row_data) (fd_w_mult unit_row_data)
        (fd_k unit_row_data) (fd_B unit_row_data) (fd_Xr unit_row_data)
        (fd_X_ind unit_row_data) (fd_nnz_this unit_row_data) [1] = 2
   \<and> calc_fun_single [1] 1 unit_row_data = 2
   \<and> fst (calc_fun_and_grad [1] unit_row_data) = 1"
  by (simp add: calc_fun_and_grad_def calc_fun_single_def spec_value_def unit_row_data_def
      Let_def cblas_ddot_def cblas_daxpy_def vec_def)

text \<open>
  Claim C6. Every gradient evaluator computes, for a row \<open>a\<close> whose predicted dot
  products are strictly positive, the gradient
  \<open>S + 2 * l2 * a - weight * (sum over the nonzeros of (x / dot(a, B[col])) * B[col])\<close>,
  coordinate by coordinate: the callback \<^verbatim>\<open>cg_iteration\<close> installs for the weight
  (\<^verbatim>\<open>calc_grad_single\<close> when the weight is 1, \<^verbatim>\<open>calc_grad_single_w\<close> otherwise), each of
  the two callbacks on its own, and the gradient of \<^verbatim>\<open>calc_fun_and_grad\<close>.
\<close>

theorem gradient_evaluators_formula:
  assumes "c < k" and "k \<le> length (fd_Bsum d)" and "fd_k d = k"
    and "\<forall>ix<fd_nnz_this d. 0 < cblas_ddot k a (vec k (fd_X_ind d ! ix * k) (fd_B d))"
  shows "grad_fun (fd_w_mult d) a k d ! c =
           spec_gradient (fd_Bsum d) (fd_l2_reg d) (fd_w_mult d) k (fd_B d) (fd_Xr d)
             (fd_X_ind d) (fd_nnz_this d) a c
         \<and> (fd_w_mult d = 1 \<longrightarrow>
              calc_grad_single a k d ! c =
                spec_gradient (fd_Bsum d) (fd_l2_reg d) (fd_w_mult d) k (fd_B d) (fd_Xr d)
                  (fd_X_ind d) (fd_nnz_this d) a c)
         \<and> calc_grad_single_w a k d ! c =
             spec_gradient (fd_Bsum d) (fd_l2_reg d) (fd_w_mult d) k (fd_B d) (fd_Xr d)
               (fd_X_ind d) (fd_nnz_this d) a c
         \<and> snd (calc_fun_and_grad a d) ! c =
             spec_gradient (fd_Bsum d) (fd_l2_reg d) (fd_w_mult d) k (fd_B d) (fd_Xr d)
               (fd_X_ind d) (fd_nnz_this d) a c"
proof -
  have w: "calc_grad_single_w a k d ! c =
             spec_gradient (fd_Bsum d) (fd_l2_reg d) (fd_w_mult d) k (fd_B d) (fd_Xr d)
               (fd_X_ind d) (fd_nnz_this d) a c"
    using assms(1) by (rule calc_grad_single_w_nth)
  have u: "fd_w_mult d = 1 \<Longrightarrow> calc_grad_single a k d ! c =
             spec_gradient (fd_Bsum d) (fd_l2_reg d) (fd_w_mult d) k (fd_B d) (fd_Xr d)
               (fd_X_ind d) (fd_nnz_this d) a c"
    using calc_grad_single_nth [OF assms(1,2)] by simp
  have t: "snd (calc_fun_and_grad a d) ! c =
             spec_gradient (fd_Bsum d) (fd_l2_reg d) (fd_w_mult d) k (fd_B d) (fd_Xr d)
               (fd_X_ind d) (fd_nnz_this d) a c"
    using calc_fun_and_grad_snd_nth [of c d a] assms(1,3) by simp
  show ?thesis
    using w u t by (simp add: grad_fun_def)
qed

theorem gradient_evaluators_formula_witness:
  "(0::nat) < 1 \<and> 1 \<le> length (fd_Bsum unit_row_data) \<and> fd_k unit_row_data = 1
   \<and> fd_nnz_this unit_row_data = 1
   \<and> 0 < cblas_ddot 1 [1] (vec 1 (fd_X_ind unit_row_data ! 0 * 1) (fd_B unit_row_data))
   \<and> grad_fun (fd_w_mult unit_row_data) [1] 1 unit_row_data ! 0 = 2
   \<and> calc_grad_single [1] 1 unit_row_data ! 0 = 2
   \<and> calc_grad_single_w [1] 1 unit_row_data ! 0 = 2
   \<and> snd (calc_fun_and_grad [1] unit_row_data) ! 0 = 2"
proof -
  have h: "\<forall>ix<fd_nnz_this unit_row_data.
          0 < cblas_ddot 1 [1] (vec 1 (fd_X_ind unit_row_data ! ix * 1) (fd_B unit_row_data))"
    by (simp add: unit_row_data_def cblas_ddot_def vec_def)
  have v: "spec_gradient (fd_Bsum unit_row_data) (fd_l2_reg unit_row_data)
             (fd_w_mult unit_row_data) 1 (fd_B unit_row_data) (fd_Xr unit_row_data)
             (fd_X_ind unit_row_data) (fd_nnz_this unit_row_data) [1] 0 = 2"
    by (simp add: spec_gradient_def unit_row_data_def cblas_ddot_def vec_def)
  have w: "fd_w_mult unit_row_data = 1" "1 \<le> length (fd_Bsum unit_row_data)"
    "fd_k unit_row_data = 1"
    by (simp_all add: unit_row_data_def)
  have n: "fd_nnz_this unit_row_data = 1"
    by (simp add: unit_row_data_def)
  show ?thesis
    using gradient_evaluators_formula [of 0 1 unit_row_data "[1]", OF _ w(2) w(3) h] h v w n
    by simp
qed

subsection \<open>The driver: frames, cancellation, allocation\<close>

lemma update_A_frame:
  "st_B (update_A env P cd st) = st_B st"
  "st_step_size (update_A env P cd st) = st_step_size st"
  "st_neg_step_sz (update_A env P cd st) = st_neg_step_sz st"
  "should_stop_procedure (update_A env P cd st) = should_stop_procedure st"
  by (simp_all add: update_A_def Let_def split: prod.splits Method.splits)

lemma update_B_frame:
  "st_A (update_B env P cd st) = st_A st"
  "should_stop_procedure (update_B env P cd st) = should_stop_procedure st"
  "st_step_size (update_B env P cd st)
     = (if p_method P = pg then st_step_size st * 0.5 else st_step_size st)"
  "st_neg_step_sz (update_B env P cd st)
     = (if p_method P = pg then - (st_step_size st * 0.5) else st_neg_step_sz st)"
  by (simp_all add: update_B_def Let_def split: prod.splits Method.splits)

lemma half_step_flag: "should_stop_procedure (half_step env P h st) = should_stop_procedure st"
  by (simp add: half_step_def update_A_frame update_B_frame)

lemma poll_quiet:
  "\<not> should_stop_procedure st \<Longrightarrow> \<not> env_sigint env n \<Longrightarrow> poll env n st = st"
  by (simp add: poll_def)

lemma poll_hit:
  "env_sigint env n \<Longrightarrow> poll env n st = st\<lparr>should_stop_procedure := True\<rparr>"
  by (simp add: poll_def)

lemma main_loop_step:
  assumes "\<not> should_stop_procedure st" "\<not> env_sigint env (2 * f)" "\<not> env_sigint env (2 * f + 1)"
  shows "main_loop env P (Suc n) f st
         = main_loop env P n (Suc f)
             (update_B env P (cnst_div_of P st) (update_A env P (cnst_div_of P st) st))"
  using assms by (simp add: poll_quiet Let_def update_A_frame cnst_div_of_def)

lemma run_halves_two:
  "run_halves env P (Suc (Suc c)) (2 * f) st
     = run_halves env P c (2 * Suc f)
         (update_B env P (cnst_div_of P st) (update_A env P (cnst_div_of P st) st))"
  by (simp add: half_step_def cnst_div_of_def update_A_frame)

lemma run_halves_iteration:
  "run_halves env P (2 * Suc n) (2 * f) st
     = run_halves env P (2 * n) (2 * Suc f)
         (update_B env P (cnst_div_of P st) (update_A env P (cnst_div_of P st) st))"
proof -
  have "2 * Suc n = Suc (Suc (2 * n))" by simp
  then show ?thesis by (simp only: run_halves_two)
qed

lemma main_loop_cancelled:
  assumes "\<not> should_stop_procedure st" "c < 2 * n"
    "\<forall>m<c. \<not> env_sigint env (2 * f + m)" "env_sigint env (2 * f + c)"
  shows "main_loop env P n f st
         = (run_halves env P c (2 * f) st)\<lparr>should_stop_procedure := True\<rparr>"
  using assms
proof (induction n arbitrary: f st c)
  case 0
  then show ?case by simp
next
  case (Suc n)
  show ?case
  proof (cases c)
    case 0
    with Suc.prems show ?thesis by (simp add: poll_hit)
  next
    case (Suc c1)
    note c1 = Suc
    show ?thesis
    proof (cases c1)
      case 0
      with Suc.prems c1 have q: "\<not> env_sigint env (2 * f)" and h: "env_sigint env (2 * f + 1)"
        by auto
      show ?thesis
        using Suc.prems(1) q h c1 0
        by (simp add: poll_quiet poll_hit Let_def update_A_frame half_step_def cnst_div_of_def)
    next
      case (Suc c2)
      have "0 < c" using c1 by simp
      then have q0: "\<not> env_sigint env (2 * f)"
        using Suc.prems(3) [rule_format, of 0] by simp
      have "1 < c" using c1 Suc by simp
      then have q1: "\<not> env_sigint env (2 * f + 1)"
        using Suc.prems(3) by blast
      let ?st = "update_B env P (cnst_div_of P st) (update_A env P (cnst_div_of P st) st)"
      have fl: "\<not> should_stop_procedure ?st"
        using Suc.prems(1) by (simp add: update_A_frame update_B_frame)
      have lt: "c2 < 2 * n" using Suc.prems(2) c1 Suc by simp
      have quiet: "\<forall>m<c2. \<not> env_sigint env (2 * Suc f + m)"
      proof (intro allI impI)
        fix m assume "m < c2"
        then have "Suc (Suc m) < c" using c1 Suc by simp
        then have "\<not> env_sigint env (2 * f + Suc (Suc m))" using Suc.prems(3) by blast
        then show "\<not> env_sigint env (2 * Suc f + m)" by simp
      qed
      have hit: "env_sigint env (2 * Suc f + c2)"
        using Suc.prems(4) c1 Suc by simp
      have "main_loop env P (Suc n) f st = main_loop env P n (Suc f) ?st"
        using Suc.prems(1) q0 q1 by (rule main_loop_step)
      also have "\<dots> = (run_halves env P c2 (2 * Suc f) ?st)\<lparr>should_stop_procedure := True\<rparr>"
        using Suc.IH [OF fl lt quiet hit] .
      also have "run_halves env P c2 (2 * Suc f) ?st = run_halves env P c (2 * f) st"
        unfolding c1 Suc by (rule run_halves_two [symmetric])
      finally show ?thesis .
    qed
  qed
qed

lemma main_loop_quiet:
  assumes "\<not> should_stop_procedure st" "\<forall>m<2 * n. \<not> env_sigint env (2 * f + m)"
  shows "main_loop env P (n + r) f st
         = main_loop env P r (f + n) (run_halves env P (2 * n) (2 * f) st)"
  using assms
proof (induction n arbitrary: f st)
  case 0
  then show ?case by simp
next
  case (Suc n)
  have q0: "\<not> env_sigint env (2 * f)"
    using Suc.prems(2) [rule_format, of 0] by simp
  have q1: "\<not> env_sigint env (2 * f + 1)"
    using Suc.prems(2) [rule_format, of 1] by simp
  let ?st = "update_B env P (cnst_div_of P st) (update_A env P (cnst_div_of P st) st)"
  have fl: "\<not> should_stop_procedure ?st"
    using Suc.prems(1) by (simp add: update_A_frame update_B_frame)
  have quiet: "\<forall>m<2 * n. \<not> env_sigint env (2 * Suc f + m)"
  proof (intro allI impI)
    fix m assume "m < 2 * n"
    then have "Suc (Suc m) < 2 * Suc n" by simp
    then have "\<not> env_sigint env (2 * f + Suc (Suc m))" using Suc.prems(2) by blast
    then show "\<not> env_sigint env (2 * Suc f + m)" by simp
  qed
  have "main_loop env P (Suc n + r) f st = main_loop env P (n + r) (Suc f) ?st"
    using main_loop_step [OF Suc.prems(1) q0 q1] by simp
  also have "\<dots> = main_loop env P r (Suc f + n) (run_halves env P (2 * n) (2 * Suc f) ?st)"
    using Suc.IH [OF fl quiet] .
  also have "run_halves env P (2 * n) (2 * Suc f) ?st = run_halves env P (2 * Suc n) (2 * f) st"
    by (rule run_halves_iteration [symmetric])
  finally show ?case by simp
qed

lemma free_all:
  "free Buf_inf_tncg (free Buf_zeros_tncg (free Buf_Bsum_w (free Buf_buffer_int
     (free Buf_buffer_arr (free Buf_cnst_sum live))))) = []"
proof (induction live)
  case Nil
  then show ?case by (simp add: free_def)
next
  case (Cons a live)
  then show ?case by (cases a) (simp_all add: free_def)
qed

lemma allocate_oom:
  "snd (allocate env P) = (\<not> list_all (env_malloc_ok env) (buffers_needed P))"
  by (simp add: allocate_def buffers_needed_def Let_def)

lemma run_poismf_unfold:
  "run_poismf env flag0 P A B s =
     \<lparr>ret_code = (if snd (allocate env P) then 1 else 0),
      res_A = st_A (if snd (allocate env P) then init_state A B s
                    else main_loop env P (p_numiter P) 0 (init_state A B s)),
      res_B = st_B (if snd (allocate env P) then init_state A B s
                    else main_loop env P (p_numiter P) 0 (init_state A B s)),
      res_should_stop_procedure = False, res_live = []\<rparr>"
  by (simp add: run_poismf_def Let_def free_all init_state_def split_beta)

text \<open>
  Claim C10. With \<open>numiter = 0\<close> and every needed allocation successful,
  \<^verbatim>\<open>run_poismf\<close> returns 0 and leaves \<open>A\<close> and \<open>B\<close> as they were.
\<close>

theorem numiter_zero_frame:
  assumes "p_numiter P = 0" and "list_all (env_malloc_ok env) (buffers_needed P)"
  shows "ret_code (run_poismf env flag0 P A B s) = 0
         \<and> res_A (run_poismf env flag0 P A B s) = A
         \<and> res_B (run_poismf env flag0 P A B s) = B"
  using assms by (simp add: run_poismf_unfold allocate_oom init_state_def)

theorem numiter_zero_frame_witness:
  "p_numiter (scenario\<lparr>p_numiter := 0\<rparr>) = 0
   \<and> list_all (env_malloc_ok (clip_env (\<lambda>b. True) (\<lambda>n. False)))
        (buffers_needed (scenario\<lparr>p_numiter := 0\<rparr>))
   \<and> ret_code (run_poismf (clip_env (\<lambda>b. True) (\<lambda>n. False)) False
        (scenario\<lparr>p_numiter := 0\<rparr>) [1, 1] [1, 1] (1 / 10)) = 0
   \<and> res_A (run_poismf (clip_env (\<lambda>b. True) (\<lambda>n. False)) False
        (scenario\<lparr>p_numiter := 0\<rparr>) [1, 1] [1, 1] (1 / 10)) = [1, 1]
   \<and> res_B (run_poismf (clip_env (\<lambda>b. True) (\<lambda>n. False)) False
        (scenario\<lparr>p_numiter := 0\<rparr>) [1, 1] [1, 1] (1 / 10)) = [1, 1]"
proof -
  have h: "list_all (env_malloc_ok (clip_env (\<lambda>b. True) (\<lambda>n. False)))
        (buffers_needed (scenario\<lparr>p_numiter := 0\<rparr>))"
    by (simp add: clip_env_def buffers_needed_def scenario_def)
  have z: "p_numiter (scenario\<lparr>p_numiter := 0\<rparr>) = 0" by simp
  show ?thesis
    using numiter_zero_frame [OF z h, of False "[1, 1]" "[1, 1]" "1 / 10"] h by simp
qed

text \<open>
  Claim C9. If one of the allocations the configuration needs fails, \<^verbatim>\<open>run_poismf\<close>
  returns 1 with \<open>A\<close> and \<open>B\<close> untouched; otherwise it returns 0 (also when the run
  is cancelled); in both cases no buffer is left allocated at the return.
\<close>

theorem allocation_failure_status:
  "(\<not> list_all (env_malloc_ok env) (buffers_needed P) \<longrightarrow>
      ret_code (run_poismf env flag0 P A B s) = 1
      \<and> res_A (run_poismf env flag0 P A B s) = A
      \<and> res_B (run_poismf env flag0 P A B s) = B)
   \<and> (list_all (env_malloc_ok env) (buffers_needed P) \<longrightarrow>
        ret_code (run_poismf env flag0 P A B s) = 0)
   \<and> res_live (run_poismf env flag0 P A B s) = []"
  by (simp add: run_poismf_unfold allocate_oom init_state_def)

theorem allocation_failure_status_witness:
  "\<not> list_all (env_malloc_ok (clip_env (\<lambda>b. b \<noteq> Buf_buffer_arr) (\<lambda>n. False)))
        (buffers_needed scenario)
   \<and> ret_code (run_poismf (clip_env (\<lambda>b. b \<noteq> Buf_buffer_arr) (\<lambda>n. False)) False scenario
        [1, 1] [1, 1] (1 / 10)) = 1
   \<and> res_A (run_poismf (clip_env (\<lambda>b. b \<noteq> Buf_buffer_arr) (\<lambda>n. False)) False scenario
        [1, 1] [1, 1] (1 / 10)) = [1, 1]
   \<and> res_B (run_poismf (clip_env (\<lambda>b. b \<noteq> Buf_buffer_arr) (\<lambda>n. False)) False scenario
        [1, 1] [1, 1] (1 / 10)) = [1, 1]
   \<and> res_live (run_poismf (clip_env (\<lambda>b. b \<noteq> Buf_buffer_arr) (\<lambda>n. False)) False scenario
        [1, 1] [1, 1] (1 / 10)) = []
   \<and> list_all (env_malloc_ok (clip_env (\<lambda>b. True) (\<lambda>n. False))) (buffers_needed scenario)
   \<and> ret_code (run_poismf (clip_env (\<lambda>b. True) (\<lambda>n. False)) False scenario
        [1, 1] [1, 1] (1 / 10)) = 0"
proof -
  have f: "\<not> list_all (env_malloc_ok (clip_env (\<lambda>b. b \<noteq> Buf_buffer_arr) (\<lambda>n. False)))
        (buffers_needed scenario)"
    by (simp add: clip_env_def buffers_needed_def scenario_def)
  have g: "list_all (env_malloc_ok (clip_env (\<lambda>b. True) (\<lambda>n. False))) (buffers_needed scenario)"
    by (simp add: clip_env_def buffers_needed_def scenario_def)
  show ?thesis
    using f g
      allocation_failure_status [of "clip_env (\<lambda>b. b \<noteq> Buf_buffer_arr) (\<lambda>n. False)"
        scenario False "[1, 1]" "[1, 1]" "1 / 10"]
      allocation_failure_status [of "clip_env (\<lambda>b. True) (\<lambda>n. False)"
        scenario False "[1, 1]" "[1, 1]" "1 / 10"]
    by simp
qed

text \<open>
  Claim C8 as stated promises the status 0 whenever the flag is set before the first
  outer iteration. An interrupt that arrives while an allocation has failed does not
  change the failure status: \<^verbatim>\<open>throw_oom\<close> is reached before the loop and its reads of
  the flag.
\<close>

theorem cancelled_after_failed_allocation:
  "env_sigint (clip_env (\<lambda>b. b \<noteq> Buf_buffer_arr) (\<lambda>n. n = 0)) 0
   \<and> ret_code (run_poismf (clip_env (\<lambda>b. b \<noteq> Buf_buffer_arr) (\<lambda>n. n = 0)) False scenario
        [1, 1] [1, 1] (1 / 10)) = 1"
  by (simp add: run_poismf_unfold allocate_oom buffers_needed_def clip_env_def scenario_def)

text \<open>
  Claim C8, as amended. The flag is \<open>False\<close> at every return, and its value before the
  call has no effect (it is reset at entry). With the allocations successful: if the
  flag is set when it is first read (an interrupt after the reset at entry), the run
  returns 0 with \<open>A\<close> and \<open>B\<close> unmodified; and if the first read that sees it set is
  read number \<open>c\<close>, the run returns 0 with the matrices as they are after exactly \<open>c\<close>
  completed half-iterations.
\<close>

theorem cancellation_returns_success:
  "res_should_stop_procedure (run_poismf env flag0 P A B s) = False
   \<and> run_poismf env False P A B s = run_poismf env flag0 P A B s
   \<and> (list_all (env_malloc_ok env) (buffers_needed P) \<and> env_sigint env 0 \<longrightarrow>
        ret_code (run_poismf env flag0 P A B s) = 0
        \<and> res_A (run_poismf env flag0 P A B s) = A
        \<and> res_B (run_poismf env flag0 P A B s) = B)
   \<and> (list_all (env_malloc_ok env) (buffers_needed P) \<and> c < 2 * p_numiter P
        \<and> (\<forall>m<c. \<not> env_sigint env m) \<and> env_sigint env c \<longrightarrow>
        ret_code (run_poismf env flag0 P A B s) = 0
        \<and> res_A (run_poismf env flag0 P A B s)
            = st_A (run_halves env P c 0 (init_state A B s))
        \<and> res_B (run_poismf env flag0 P A B s)
            = st_B (run_halves env P c 0 (init_state A B s)))"
proof -
  have flag: "res_should_stop_procedure (run_poismf env flag0 P A B s) = False"
    by (simp add: run_poismf_unfold)
  have entry: "run_poismf env False P A B s = run_poismf env flag0 P A B s"
    by (simp add: run_poismf_unfold)
  have first: "ret_code (run_poismf env flag0 P A B s) = 0
        \<and> res_A (run_poismf env flag0 P A B s) = A
        \<and> res_B (run_poismf env flag0 P A B s) = B"
    if ok: "list_all (env_malloc_ok env) (buffers_needed P)" and hit: "env_sigint env 0"
  proof (cases "p_numiter P")
    case 0
    then show ?thesis using ok by (simp add: run_poismf_unfold allocate_oom init_state_def)
  next
    case (Suc n)
    then show ?thesis
      using ok hit by (simp add: run_poismf_unfold allocate_oom init_state_def poll_hit)
  qed
  have later: "ret_code (run_poismf env flag0 P A B s) = 0
        \<and> res_A (run_poismf env flag0 P A B s)
            = st_A (run_halves env P c 0 (init_state A B s))
        \<and> res_B (run_poismf env flag0 P A B s)
            = st_B (run_halves env P c 0 (init_state A B s))"
    if ok: "list_all (env_malloc_ok env) (buffers_needed P)" and lt: "c < 2 * p_numiter P"
      and quiet: "\<forall>m<c. \<not> env_sigint env m" and hit: "env_sigint env c"
  proof -
    have "main_loop env P (p_numiter P) 0 (init_state A B s)
          = (run_halves env P c (2 * 0) (init_state A B s))\<lparr>should_stop_procedure := True\<rparr>"
      using lt quiet hit by (intro main_loop_cancelled) (simp_all add: init_state_def)
    then show ?thesis using ok by (simp add: run_poismf_unfold allocate_oom)
  qed
  show ?thesis using flag entry first later by blast
qed

theorem cancellation_returns_success_witness:
  "list_all (env_malloc_ok (clip_env (\<lambda>b. True) (\<lambda>n. n = 0))) (buffers_needed scenario)
   \<and> env_sigint (clip_env (\<lambda>b. True) (\<lambda>n. n = 0)) 0
   \<and> ret_code (run_poismf (clip_env (\<lambda>b. True) (\<lambda>n. n = 0)) True scenario
        [1, 1] [1, 1] (1 / 10)) = 0
   \<and> res_A (run_poismf (clip_env (\<lambda>b. True) (\<lambda>n. n = 0)) True scenario
        [1, 1] [1, 1] (1 / 10)) = [1, 1]
   \<and> res_B (run_poismf (clip_env (\<lambda>b. True) (\<lambda>n. n = 0)) True scenario
        [1, 1] [1, 1] (1 / 10)) = [1, 1]
   \<and> res_should_stop_procedure (run_poismf (clip_env (\<lambda>b. True) (\<lambda>n. n = 0)) True scenario
        [1, 1] [1, 1] (1 / 10)) = False
   \<and> list_all (env_malloc_ok (clip_env (\<lambda>b. True) (\<lambda>n. n = 1))) (buffers_needed scenario)
   \<and> (1::nat) < 2 * p_numiter scenario
   \<and> \<not> env_sigint (clip_env (\<lambda>b. True) (\<lambda>n. n = 1)) 0
   \<and> env_sigint (clip_env (\<lambda>b. True) (\<lambda>n. n = 1)) 1
   \<and> ret_code (run_poismf (clip_env (\<lambda>b. True) (\<lambda>n. n = 1)) True scenario
        [1, 1] [1, 1] (1 / 10)) = 0
   \<and> res_A (run_poismf (clip_env (\<lambda>b. True) (\<lambda>n. n = 1)) True scenario
        [1, 1] [1, 1] (1 / 10))
       = st_A (run_halves (clip_env (\<lambda>b. True) (\<lambda>n. n = 1)) scenario 1 0
                 (init_state [1, 1] [1, 1] (1 / 10)))
   \<and> res_B (run_poismf (clip_env (\<lambda>b. True) (\<lambda>n. n = 1)) True scenario
        [1, 1] [1, 1] (1 / 10))
       = st_B (run_halves (clip_env (\<lambda>b. True) (\<lambda>n. n = 1)) scenario 1 0
                 (init_state [1, 1] [1, 1] (1 / 10)))"
proof -
  have ok: "list_all (env_malloc_ok (clip_env (\<lambda>b. True) sig)) (buffers_needed scenario)" for sig
    by (simp add: clip_env_def buffers_needed_def scenario_def)
  have sg: "env_sigint (clip_env (\<lambda>b. True) sig) = sig" for sig
    by (simp add: clip_env_def)
  have n: "p_numiter scenario = 1"
    by (simp add: scenario_def)
  show ?thesis
    using cancellation_returns_success [of "clip_env (\<lambda>b. True) (\<lambda>n. n = 0)" True scenario
        "[1, 1]" "[1, 1]" "1 / 10" 0]
      cancellation_returns_success [of "clip_env (\<lambda>b. True) (\<lambda>n. n = 1)" True scenario
        "[1, 1]" "[1, 1]" "1 / 10" 1]
    by (simp add: ok sg n)
qed

lemma run_halves_snoc:
  "run_halves env P (Suc c) h st = half_step env P (h + c) (run_halves env P c h st)"
  by (induction c arbitrary: h st) simp_all

lemma pg_step_after_iterations:
  assumes "p_method P = pg"
  shows "st_step_size (run_halves env P (2 * n) (2 * f) st) = st_step_size st * 0.5 ^ n"
proof (induction n arbitrary: f st)
  case 0
  then show ?case by simp
next
  case (Suc n)
  let ?st = "update_B env P (cnst_div_of P st) (update_A env P (cnst_div_of P st) st)"
  have "st_step_size (run_halves env P (2 * n) (2 * Suc f) ?st) = st_step_size ?st * 0.5 ^ n"
    by (rule Suc.IH)
  moreover have "st_step_size ?st = st_step_size st * 0.5"
    using assms by (simp add: update_A_frame update_B_frame)
  ultimately show ?case
    unfolding run_halves_iteration by simp
qed

lemma pg_neg_step_after_iterations:
  assumes "p_method P = pg" "st_neg_step_sz st = - st_step_size st"
  shows "st_neg_step_sz (run_halves env P (2 * n) (2 * f) st)
         = - st_step_size (run_halves env P (2 * n) (2 * f) st)"
  using assms(2)
proof (induction n arbitrary: f st)
  case 0
  then show ?case by simp
next
  case (Suc n)
  let ?st = "update_B env P (cnst_div_of P st) (update_A env P (cnst_div_of P st) st)"
  have e: "run_halves env P (2 * Suc n) (2 * f) st = run_halves env P (2 * n) (2 * Suc f) ?st"
    by (rule run_halves_iteration)
  have "st_neg_step_sz ?st = - st_step_size ?st"
    using assms(1) by (simp add: update_A_frame update_B_frame)
  then show ?case
    unfolding e by (rule Suc.IH)
qed

subsection \<open>Slices of flat arrays and loops over rows\<close>

lemma length_vec: "off + n \<le> length M \<Longrightarrow> length (vec n off M) = n"
  by (simp add: vec_def)

lemma nth_vec: "i < n \<Longrightarrow> off + n \<le> length M \<Longrightarrow> vec n off M ! i = M ! (off + i)"
  by (simp add: vec_def)

lemma length_store: "off + length v \<le> length M \<Longrightarrow> length (store off v M) = length M"
  by (simp add: store_def)

lemma nth_store:
  assumes "off + length v \<le> length M" "i < length M"
  shows "store off v M ! i = (if off \<le> i \<and> i < off + length v then v ! (i - off) else M ! i)"
proof -
  have l: "length (take off M) = off" using assms(1) by simp
  have e: "store off v M ! i
           = (if i < off then take off M ! i
              else if i - off < length v then v ! (i - off)
              else drop (off + length v) M ! (i - off - length v))"
    unfolding store_def nth_append l by simp
  show ?thesis
  proof (cases "i < off")
    case True
    then show ?thesis unfolding e by simp
  next
    case False
    show ?thesis
    proof (cases "i < off + length v")
      case True
      with False have "i - off < length v" by simp
      with False True show ?thesis unfolding e by simp
    next
      case b: False
      have s: "off + length v + (i - off - length v) = i" using False b by simp
      have "\<not> i - off < length v" using False b by simp
      moreover have "drop (off + length v) M ! (i - off - length v) = M ! i"
        using assms(1) s by simp
      ultimately show ?thesis using False b unfolding e by simp
    qed
  qed
qed

lemma row_bounds:
  fixes i n k :: nat
  assumes "i < n"
  shows "i * k + k \<le> n * k"
proof -
  have "Suc i * k \<le> n * k" using assms by (intro mult_le_mono1) simp
  then show ?thesis by (simp add: add.commute)
qed

lemma rows_disjoint:
  fixes i j k c :: nat
  assumes "i \<noteq> j" "c < k"
  shows "\<not> (j * k \<le> i * k + c \<and> i * k + c < j * k + k)"
proof (cases "i < j")
  case True
  then have "Suc i * k \<le> j * k" by (intro mult_le_mono1) simp
  then show ?thesis using assms(2) by simp
next
  case False
  with assms(1) have "Suc j * k \<le> i * k" by (intro mult_le_mono1) simp
  then show ?thesis by simp
qed

lemma vec_store_same:
  assumes "off + length v \<le> length M"
  shows "vec (length v) off (store off v M) = v"
  using assms by (simp add: vec_def store_def)

lemma vec_store_other:
  assumes "length M = n * k" "i < n" "j < n" "i \<noteq> j" "length v = k"
  shows "vec k (i * k) (store (j * k) v M) = vec k (i * k) M"
proof (rule nth_equalityI)
  have bi: "i * k + k \<le> length M" and bj: "j * k + length v \<le> length M"
    using assms row_bounds by simp_all
  have ls: "length (store (j * k) v M) = length M"
    using bj by (rule length_store)
  show "length (vec k (i * k) (store (j * k) v M)) = length (vec k (i * k) M)"
    using bi ls by (simp add: length_vec)
  fix c assume "c < length (vec k (i * k) (store (j * k) v M))"
  then have c: "c < k" using bi ls by (simp add: length_vec)
  then have lt: "i * k + c < length M" using bi by simp
  have "vec k (i * k) (store (j * k) v M) ! c = store (j * k) v M ! (i * k + c)"
    using c bi ls by (simp add: nth_vec)
  also have "\<dots> = M ! (i * k + c)"
    using nth_store [OF bj lt] rows_disjoint [OF assms(4) c, of] assms(5) by simp
  also have "\<dots> = vec k (i * k) M ! c"
    using c bi by (simp add: nth_vec)
  finally show "vec k (i * k) (store (j * k) v M) ! c = vec k (i * k) M ! c" .
qed

lemma store_store:
  assumes "off + length v \<le> length M" "length w = length v"
  shows "store off w (store off v M) = store off w M"
  using assms by (simp add: store_def)

text \<open>A loop that rewrites one row through its slice is a rewrite of the slice.\<close>

lemma fold_store_row:
  assumes "off + k \<le> length M" "\<And>j v. length v = k \<Longrightarrow> length (h j v) = k"
  shows "fold (\<lambda>j M. store off (h j (vec k off M)) M) js M
         = (if js = [] then M else store off (fold h js (vec k off M)) M)"
  using assms(1)
proof (induction js arbitrary: M)
  case Nil
  then show ?case by simp
next
  case (Cons j js)
  let ?v = "h j (vec k off M)"
  have lv: "length ?v = k"
    using Cons.prems by (intro assms(2)) (simp add: length_vec)
  have b: "off + length ?v \<le> length M" using lv Cons.prems by simp
  have ls: "off + k \<le> length (store off ?v M)"
    using length_store [OF b] Cons.prems by simp
  have vs: "vec k off (store off ?v M) = ?v"
    using vec_store_same [OF b] lv by simp
  show ?case
  proof (cases "js = []")
    case True
    then show ?thesis by simp
  next
    case False
    have lf: "length (fold h js ?v) = k"
      using lv by (induction js arbitrary: j M rule: rev_induct) (simp_all add: assms(2))
    have "fold (\<lambda>j M. store off (h j (vec k off M)) M) (j # js) M
          = store off (fold h js ?v) (store off ?v M)"
      using Cons.IH [OF ls] False vs by simp
    also have "\<dots> = store off (fold h js ?v) M"
      using b lf lv by (intro store_store) simp_all
    finally show ?thesis by simp
  qed
qed

text \<open>A loop over the rows that rewrites each row from its own slice.\<close>

lemma fold_rows_length:
  assumes "length M = n * k" "\<And>i v. length v = k \<Longrightarrow> length (g i v) = k" "\<forall>i\<in>set rs. i < n"
  shows "length (fold (\<lambda>i M. store (i * k) (g i (vec k (i * k) M)) M) rs M) = n * k"
  using assms(1,3)
proof (induction rs arbitrary: M)
  case Nil
  then show ?case by simp
next
  case (Cons r rs)
  have b: "r * k + k \<le> length M" using Cons.prems row_bounds by simp
  have "length (g r (vec k (r * k) M)) = k"
    using b by (intro assms(2)) (simp add: length_vec)
  then have "length (store (r * k) (g r (vec k (r * k) M)) M) = n * k"
    using b Cons.prems(1) by (simp add: length_store)
  then show ?case using Cons by simp
qed

lemma fold_rows_vec:
  assumes "length M = n * k" "\<And>i v. length v = k \<Longrightarrow> length (g i v) = k"
    "\<forall>i\<in>set rs. i < n" "distinct rs" "i < n"
  shows "vec k (i * k) (fold (\<lambda>i M. store (i * k) (g i (vec k (i * k) M)) M) rs M)
         = (if i \<in> set rs then g i (vec k (i * k) M) else vec k (i * k) M)"
  using assms(1,3,4)
proof (induction rs arbitrary: M)
  case Nil
  then show ?case by simp
next
  case (Cons r rs)
  let ?M = "store (r * k) (g r (vec k (r * k) M)) M"
  have r: "r < n" using Cons.prems by simp
  have b: "r * k + k \<le> length M" using Cons.prems r row_bounds by simp
  have lg: "length (g r (vec k (r * k) M)) = k"
    using b by (intro assms(2)) (simp add: length_vec)
  have lM: "length ?M = n * k"
    using b Cons.prems(1) lg by (simp add: length_store)
  have IH: "vec k (i * k) (fold (\<lambda>i M. store (i * k) (g i (vec k (i * k) M)) M) rs ?M)
         = (if i \<in> set rs then g i (vec k (i * k) ?M) else vec k (i * k) ?M)"
    using Cons.prems by (intro Cons.IH lM) simp_all
  show ?case
  proof (cases "i = r")
    case True
    then have "i \<notin> set rs" using Cons.prems by simp
    moreover have "vec k (r * k) ?M = g r (vec k (r * k) M)"
      using vec_store_same [of "r * k" "g r (vec k (r * k) M)" M] b lg by simp
    ultimately show ?thesis using IH True by simp
  next
    case False
    have "vec k (i * k) ?M = vec k (i * k) M"
      using Cons.prems(1) assms(5) r False lg by (rule vec_store_other)
    then show ?thesis using IH False by simp
  qed
qed

lemma fold_update_all:
  "length (fold (\<lambda>ix xs. xs[off + ix := f (xs ! (off + ix))]) [0..<n] xs) = length xs
   \<and> (\<forall>i<length xs.
         fold (\<lambda>ix xs. xs[off + ix := f (xs ! (off + ix))]) [0..<n] xs ! i
         = (if off \<le> i \<and> i < off + n then f (xs ! i) else xs ! i))"
proof (induction n)
  case 0
  then show ?case by auto
next
  case (Suc n)
  let ?ys = "fold (\<lambda>ix xs. xs[off + ix := f (xs ! (off + ix))]) [0..<n] xs"
  have l: "length ?ys = length xs" using Suc by simp
  have v: "\<And>i. i < length xs \<Longrightarrow>
             ?ys ! i = (if off \<le> i \<and> i < off + n then f (xs ! i) else xs ! i)"
    using Suc by simp
  have e: "fold (\<lambda>ix xs. xs[off + ix := f (xs ! (off + ix))]) [0..<Suc n] xs
           = ?ys[off + n := f (?ys ! (off + n))]"
    by simp
  show ?case
    unfolding e
  proof (intro conjI allI impI)
    show "length (?ys[off + n := f (?ys ! (off + n))]) = length xs" using l by simp
    fix i assume i: "i < length xs"
    show "?ys[off + n := f (?ys ! (off + n))] ! i
          = (if off \<le> i \<and> i < off + Suc n then f (xs ! i) else xs ! i)"
    proof (cases "i = off + n")
      case True
      then show ?thesis using i l v [OF i] by simp
    next
      case False
      then show ?thesis using i l v [OF i] by auto
    qed
  qed
qed

lemma length_fold_update [simp]:
  "length (fold (\<lambda>ix xs. xs[off + ix := f (xs ! (off + ix))]) [0..<n] xs) = length xs"
  using fold_update_all [of off f n xs] by simp

lemma nth_fold_update:
  "i < length xs \<Longrightarrow>
   fold (\<lambda>ix xs. xs[off + ix := f (xs ! (off + ix))]) [0..<n] xs ! i
     = (if off \<le> i \<and> i < off + n then f (xs ! i) else xs ! i)"
  using fold_update_all [of off f n xs] by simp

lemma store_vec_id: "off + k \<le> length M \<Longrightarrow> store off (vec k off M) M = M"
proof -
  assume a: "off + k \<le> length M"
  have e: "drop (off + k) M = drop k (drop off M)"
    by (simp add: add.commute)
  have "take k (drop off M) @ drop (off + k) M = drop off M"
    unfolding e by (rule append_take_drop_id)
  moreover have "length (vec k off M) = k" using a by (simp add: length_vec)
  ultimately show ?thesis by (simp add: store_def vec_def)
qed

lemma fold_store_row_eq:
  assumes "off + k \<le> length M" "\<And>j v. length v = k \<Longrightarrow> length (h j v) = k"
  shows "fold (\<lambda>j M. store off (h j (vec k off M)) M) js M
         = store off (fold h js (vec k off M)) M"
  using fold_store_row [where js = js, OF assms] store_vec_id [OF assms(1)]
  by (cases "js = []") simp_all

lemma length_fold_pres:
  assumes "\<And>j v. length v = k \<Longrightarrow> length (h j v) = k" "length v = k"
  shows "length (fold h js v) = k"
  using assms(2) by (induction js arbitrary: v) (simp_all add: assms(1))

lemma fold_rows:
  assumes len: "length M = n * k" and m: "m \<le> n"
    and loc: "\<And>i M. i < n \<Longrightarrow> length M = n * k
                \<Longrightarrow> F i M = store (i * k) (g i (vec k (i * k) M)) M"
    and lg: "\<And>i v. length v = k \<Longrightarrow> length (g i v) = k"
  shows "length (fold F [0..<m] M) = n * k"
    and "i < n \<Longrightarrow> vec k (i * k) (fold F [0..<m] M)
           = (if i < m then g i (vec k (i * k) M) else vec k (i * k) M)"
proof -
  have eq: "fold F rs M = fold (\<lambda>i M. store (i * k) (g i (vec k (i * k) M)) M) rs M"
    if "\<forall>i\<in>set rs. i < n" "length M = n * k" for rs M
    using that
  proof (induction rs arbitrary: M)
    case Nil
    then show ?case by simp
  next
    case (Cons r rs)
    have r: "r < n" using Cons.prems by simp
    have b: "r * k + k \<le> length M" using Cons.prems r row_bounds by simp
    have "length (g r (vec k (r * k) M)) = k"
      using b by (intro lg) (simp add: length_vec)
    then have "length (store (r * k) (g r (vec k (r * k) M)) M) = n * k"
      using b Cons.prems(2) by (simp add: length_store)
    then show ?case
      using Cons.prems Cons.IH loc [OF r Cons.prems(2)] by simp
  qed
  have rs: "\<forall>i\<in>set [0..<m]. i < n" using m by simp
  show "length (fold F [0..<m] M) = n * k"
    unfolding eq [OF rs len] using len lg rs by (rule fold_rows_length)
  show "vec k (i * k) (fold F [0..<m] M)
           = (if i < m then g i (vec k (i * k) M) else vec k (i * k) M)" if "i < n"
    unfolding eq [OF rs len]
    using fold_rows_vec [where g = g, OF len lg rs distinct_upt that] by simp
qed

lemma nth_fold_daxpy_list:
  "c < length g \<Longrightarrow> c < n \<Longrightarrow>
   fold (\<lambda>ix g. cblas_daxpy n (al ix) (v ix) g) xs g ! c
     = g ! c + sum_list (map (\<lambda>ix. al ix * v ix ! c) xs)"
  by (induction xs arbitrary: g) (simp_all add: nth_cblas_daxpy algebra_simps)

lemma nth_fold_daxpy_upt:
  "c < length g \<Longrightarrow> c < n \<Longrightarrow>
   fold (\<lambda>ix g. cblas_daxpy n (al ix) (v ix) g) [a..<b] g ! c
     = g ! c + (\<Sum>ix = a..<b. al ix * v ix ! c)"
  by (simp add: nth_fold_daxpy_list interv_sum_list_conv_sum_set_nat)

lemma fold_update_ix_all:
  "length (fold (\<lambda>ix xs. xs[ix := f ix (xs ! ix)]) [0..<n] xs) = length xs
   \<and> (\<forall>i<length xs.
         fold (\<lambda>ix xs. xs[ix := f ix (xs ! ix)]) [0..<n] xs ! i
         = (if i < n then f i (xs ! i) else xs ! i))"
proof (induction n)
  case 0
  then show ?case by auto
next
  case (Suc n)
  let ?ys = "fold (\<lambda>ix xs. xs[ix := f ix (xs ! ix)]) [0..<n] xs"
  have l: "length ?ys = length xs" using Suc by simp
  have v: "\<And>i. i < length xs \<Longrightarrow> ?ys ! i = (if i < n then f i (xs ! i) else xs ! i)"
    using Suc by simp
  have e: "fold (\<lambda>ix xs. xs[ix := f ix (xs ! ix)]) [0..<Suc n] xs = ?ys[n := f n (?ys ! n)]"
    by simp
  show ?case
    unfolding e
  proof (intro conjI allI impI)
    show "length (?ys[n := f n (?ys ! n)]) = length xs" using l by simp
    fix i assume i: "i < length xs"
    show "?ys[n := f n (?ys ! n)] ! i = (if i < Suc n then f i (xs ! i) else xs ! i)"
    proof (cases "i = n")
      case True
      then show ?thesis using i l v [OF i] by simp
    next
      case False
      then show ?thesis using i l v [OF i] by auto
    qed
  qed
qed

lemma sum_by_cols_rows:
  "length (sum_by_cols M nrow ncol) = ncol
   \<and> (\<forall>c<ncol. sum_by_cols M nrow ncol ! c = (\<Sum>row<nrow. M ! (row * ncol + c)))"
proof (induction nrow)
  case 0
  then show ?case by (simp add: sum_by_cols_def)
next
  case (Suc nrow)
  let ?out = "sum_by_cols M nrow ncol"
  have e: "sum_by_cols M (Suc nrow) ncol
           = fold (\<lambda>col out. out[col := (\<lambda>c x. x + M ! (nrow * ncol + c)) col (out ! col)])
               [0..<ncol] ?out"
    by (simp add: sum_by_cols_def)
  show ?case
    unfolding e
    using fold_update_ix_all [of "\<lambda>c x. x + M ! (nrow * ncol + c)" ncol ?out] Suc
    by simp
qed

lemma length_sum_by_cols [simp]: "length (sum_by_cols M nrow ncol) = ncol"
  using sum_by_cols_rows by blast

lemma nth_sum_by_cols:
  "c < ncol \<Longrightarrow> sum_by_cols M nrow ncol ! c = (\<Sum>row<nrow. M ! (row * ncol + c))"
  using sum_by_cols_rows by blast

lemma adjustment_Bsum_row:
  assumes "i < dimA" "c < k"
  shows "length (adjustment_Bsum B Bsum Xr_indices Xr_indptr dimA k w_mult) = dimA * k"
    and "vec k (i * k) (adjustment_Bsum B Bsum Xr_indices Xr_indptr dimA k w_mult) ! c
         = Bsum ! c + (w_mult - 1)
             * (\<Sum>ix = Xr_indptr ! i..<Xr_indptr ! (i + 1). vec k (Xr_indices ! ix * k) B ! c)"
proof -
  let ?g1 = "\<lambda>row. fold (\<lambda>ix v. cblas_daxpy k 1 (vec k (Xr_indices ! ix * k) B) v)
                       [Xr_indptr ! row..<Xr_indptr ! (row + 1)]"
  let ?F1 = "\<lambda>row Bsum_user.
               fold (\<lambda>ix Bsum_user.
                       store (row * k)
                         (cblas_daxpy k 1 (vec k (Xr_indices ! ix * k) B)
                            (vec k (row * k) Bsum_user))
                         Bsum_user)
                    [Xr_indptr ! row..<Xr_indptr ! (row + 1)] Bsum_user"
  let ?B0 = "replicate (dimA * k) (0::real)"
  let ?B1 = "fold ?F1 [0..<dimA] ?B0"
  let ?B2 = "fold (\<lambda>ix Bsum_user. Bsum_user[ix := (\<lambda>j x. x * (w_mult - 1)) ix (Bsum_user ! ix)])
               [0..<dimA * k] ?B1"
  let ?F3 = "\<lambda>row Bsum_user.
               store (row * k) (cblas_daxpy k 1 Bsum (vec k (row * k) Bsum_user)) Bsum_user"
  let ?B3 = "fold ?F3 [0..<dimA] ?B2"
  have def: "adjustment_Bsum B Bsum Xr_indices Xr_indptr dimA k w_mult = ?B3"
    by (simp add: adjustment_Bsum_def Let_def)
  have b: "i * k + k \<le> dimA * k" using assms(1) by (rule row_bounds)
  have ic: "i * k + c < dimA * k" using b assms(2) by simp
  have loc1: "?F1 r M = store (r * k) (?g1 r (vec k (r * k) M)) M"
    if "r < dimA" "length M = dimA * k" for r M
  proof -
    have "r * k + k \<le> length M" using that row_bounds [of r dimA k] by simp
    then show ?thesis
      by (rule fold_store_row_eq
            [where h = "\<lambda>ix v. cblas_daxpy k 1 (vec k (Xr_indices ! ix * k) B) v"]) simp
  qed
  have lg1: "length (?g1 r v) = k" if "length v = k" for r v
    using that by simp
  have l1: "length ?B1 = dimA * k"
  proof (rule fold_rows(1) [where g = ?g1 and n = dimA, OF _ _ loc1 lg1])
    show "length ?B0 = dimA * k" by simp
    show "dimA \<le> dimA" by simp
  qed
  have l0: "length ?B0 = dimA * k" by simp
  have v1': "vec k (i * k) ?B1
             = (if i < dimA then ?g1 i (vec k (i * k) ?B0) else vec k (i * k) ?B0)"
    by (rule fold_rows(2) [where g = ?g1 and n = dimA and m = dimA and F = ?F1 and M = ?B0
        and k = k and i = i, OF l0 le_refl loc1 lg1 assms(1)])
  have v1: "vec k (i * k) ?B1 = ?g1 i (vec k (i * k) ?B0)"
    unfolding v1' using assms(1) by simp
  have z: "vec k (i * k) ?B0 ! c = 0" "length (vec k (i * k) ?B0) = k"
    using b assms(2) by (simp_all add: nth_vec length_vec)
  have n1: "?B1 ! (i * k + c)
            = (\<Sum>ix = Xr_indptr ! i..<Xr_indptr ! (i + 1). vec k (Xr_indices ! ix * k) B ! c)"
  proof -
    have "?B1 ! (i * k + c) = vec k (i * k) ?B1 ! c"
      using assms(2) b l1 by (simp add: nth_vec)
    also have "\<dots> = ?g1 i (vec k (i * k) ?B0) ! c" by (simp only: v1)
    also have "\<dots> = (\<Sum>ix = Xr_indptr ! i..<Xr_indptr ! (i + 1).
                        1 * vec k (Xr_indices ! ix * k) B ! c)"
      using z assms(2) by (simp add: nth_fold_daxpy_upt)
    finally show ?thesis by simp
  qed
  have l2: "length ?B2 = dimA * k"
    using fold_update_ix_all [of "\<lambda>j x. x * (w_mult - 1)" "dimA * k" ?B1] l1 by simp
  have n2: "?B2 ! (i * k + c) = ?B1 ! (i * k + c) * (w_mult - 1)"
    using fold_update_ix_all [of "\<lambda>j x. x * (w_mult - 1)" "dimA * k" ?B1] l1 ic by simp
  have loc3: "?F3 r M = store (r * k) ((\<lambda>r. cblas_daxpy k 1 Bsum) r (vec k (r * k) M)) M"
    for r M
    by simp
  have lg3: "length ((\<lambda>r. cblas_daxpy k 1 Bsum) r v) = k" if "length v = k" for r :: nat and v
    using that by simp
  show "length (adjustment_Bsum B Bsum Xr_indices Xr_indptr dimA k w_mult) = dimA * k"
    unfolding def
    by (rule fold_rows(1) [where g = "\<lambda>r. cblas_daxpy k 1 Bsum" and n = dimA,
          OF l2 le_refl loc3 lg3])
  have v3': "vec k (i * k) ?B3
             = (if i < dimA then (\<lambda>r. cblas_daxpy k 1 Bsum) i (vec k (i * k) ?B2)
                else vec k (i * k) ?B2)"
    by (rule fold_rows(2) [where g = "\<lambda>r. cblas_daxpy k 1 Bsum" and n = dimA and m = dimA
        and F = ?F3 and M = ?B2 and k = k and i = i, OF l2 le_refl loc3 lg3 assms(1)])
  have v3: "vec k (i * k) ?B3 = cblas_daxpy k 1 Bsum (vec k (i * k) ?B2)"
    unfolding v3' using assms(1) by simp
  have "vec k (i * k) ?B3 ! c = Bsum ! c + ?B2 ! (i * k + c)"
    unfolding v3 using assms(2) b l2 by (simp add: nth_cblas_daxpy length_vec nth_vec)
  then show "vec k (i * k) (adjustment_Bsum B Bsum Xr_indices Xr_indptr dimA k w_mult) ! c
         = Bsum ! c + (w_mult - 1)
             * (\<Sum>ix = Xr_indptr ! i..<Xr_indptr ! (i + 1). vec k (Xr_indices ! ix * k) B ! c)"
    unfolding def using n1 n2 by simp
qed

lemma clip_store:
  assumes "off + length v \<le> length M"
  shows "fold (\<lambda>ix A. A[off + ix := f (A ! (off + ix))]) [0..<length v] (store off v M)
         = store off (map f v) M"
proof (rule nth_equalityI)
  have ls: "length (store off v M) = length M" using assms by (rule length_store)
  have lm: "length (store off (map f v) M) = length M" using assms by (simp add: length_store)
  show "length (fold (\<lambda>ix A. A[off + ix := f (A ! (off + ix))]) [0..<length v] (store off v M))
        = length (store off (map f v) M)"
    using ls lm by simp
  fix i
  assume "i < length (fold (\<lambda>ix A. A[off + ix := f (A ! (off + ix))]) [0..<length v]
                        (store off v M))"
  then have i: "i < length M" using ls by simp
  then have i': "i < length (store off v M)" using ls by simp
  have a': "off + length (map f v) \<le> length M" using assms by simp
  show "fold (\<lambda>ix A. A[off + ix := f (A ! (off + ix))]) [0..<length v] (store off v M) ! i
        = store off (map f v) M ! i"
    unfolding nth_fold_update [OF i'] nth_store [OF assms i] nth_store [OF a' i]
    by auto
qed

subsection \<open>Projected gradient on one row\<close>

lemma pg_update_row:
  assumes "ia * k + k \<le> length A"
  shows "pg_update B Xr Xr_indptr Xr_indices k cnst_div Bsum step_size ia nnz_this A
         = store (ia * k)
             (pg_row B (drop (Xr_indptr ! ia) Xr) (drop (Xr_indptr ! ia) Xr_indices) nnz_this k
                cnst_div Bsum step_size (vec k (ia * k) A))
             A"
proof -
  let ?a = "vec k (ia * k) A"
  let ?g = "calc_grad_pgd ?a B (drop (Xr_indptr ! ia) Xr) (drop (Xr_indptr ! ia) Xr_indices)
              nnz_this k"
  let ?a1 = "cblas_daxpy k step_size ?g ?a"
  let ?a2 = "cblas_daxpy k 1 Bsum ?a1"
  let ?a3 = "cblas_dscal k cnst_div ?a2"
  have la: "length ?a = k" using assms by (simp add: length_vec)
  then have l1: "length ?a1 = k" and l2: "length ?a2 = k" and l3: "length ?a3 = k"
    by simp_all
  have b1: "ia * k + length ?a1 \<le> length A" using assms l1 by simp
  have s1: "vec k (ia * k) (store (ia * k) ?a1 A) = ?a1"
    using vec_store_same [OF b1] l1 by simp
  have b2: "ia * k + length ?a2 \<le> length A" using assms l2 by simp
  have e2: "store (ia * k) ?a2 (store (ia * k) ?a1 A) = store (ia * k) ?a2 A"
    using b1 l1 l2 by (intro store_store) simp_all
  have s2: "vec k (ia * k) (store (ia * k) ?a2 A) = ?a2"
    using vec_store_same [OF b2] l2 by simp
  have b3: "ia * k + length ?a3 \<le> length A" using assms l3 by simp
  have e3: "store (ia * k) ?a3 (store (ia * k) ?a2 A) = store (ia * k) ?a3 A"
    using b2 l2 l3 by (intro store_store) simp_all
  have "pg_update B Xr Xr_indptr Xr_indices k cnst_div Bsum step_size ia nnz_this A
        = fold (\<lambda>ix A. A[ia * k + ix := nonneg (A ! (ia * k + ix))]) [0..<k]
            (store (ia * k) ?a3 A)"
    unfolding pg_update_def Let_def s1 e2 s2 e3 ..
  also have "\<dots> = store (ia * k) (map nonneg ?a3) A"
    using clip_store [OF b3, of nonneg] l3 by simp
  finally show ?thesis by (simp add: pg_row_def)
qed

lemma length_pg_row [simp]:
  "length (pg_row B X Xind nnz_this k cnst_div Bsum step_size a) = length a"
  by (simp add: pg_row_def)

lemma pg_row_nonneg:
  "list_all (\<lambda>x. 0 \<le> x) (pg_row B X Xind nnz_this k cnst_div Bsum step_size a)"
  by (auto simp add: pg_row_def list_all_iff nonneg_def)

lemma length_calc_grad_pgd [simp]: "length (calc_grad_pgd a F X Xind nnz_this k) = k"
  by (simp add: calc_grad_pgd_def Let_def)

lemma nth_calc_grad_pgd:
  "c < k \<Longrightarrow>
   calc_grad_pgd a F X Xind nnz_this k ! c
     = (\<Sum>ix<nnz_this. X ! ix / cblas_ddot k a (vec k (Xind ! ix * k) F)
                          * vec k (Xind ! ix * k) F ! c)"
proof -
  have comm: "cblas_ddot k x y = cblas_ddot k y x" for x y
    by (simp add: cblas_ddot_def mult.commute)
  assume "c < k"
  then show ?thesis
    by (simp add: calc_grad_pgd_def Let_def nth_fold_daxpy comm [of _ a])
qed

lemma pg_row_formula:
  assumes "length a = k" "k \<le> length S"
  shows "pg_row B X Xind nnz_this k (1 / (1 + 2 * l2 * step)) (cblas_dscal k (- step) S) step a
         = spec_pg_update S l2 step k B X Xind nnz_this a"
proof (rule nth_equalityI)
  show "length (pg_row B X Xind nnz_this k (1 / (1 + 2 * l2 * step))
                  (cblas_dscal k (- step) S) step a)
        = length (spec_pg_update S l2 step k B X Xind nnz_this a)"
    using assms by (simp add: spec_pg_update_def)
  fix c
  assume "c < length (pg_row B X Xind nnz_this k (1 / (1 + 2 * l2 * step))
                        (cblas_dscal k (- step) S) step a)"
  then have c: "c < k" using assms by simp
  have "pg_row B X Xind nnz_this k (1 / (1 + 2 * l2 * step)) (cblas_dscal k (- step) S) step a ! c
        = nonneg (1 / (1 + 2 * l2 * step)
                  * (1 * (- step * S ! c)
                     + (step * calc_grad_pgd a B X Xind nnz_this k ! c + a ! c)))"
    using c assms by (simp add: pg_row_def nth_cblas_dscal nth_cblas_daxpy)
  also have "\<dots> = nonneg ((a ! c + step * calc_grad_pgd a B X Xind nnz_this k ! c
                             - step * S ! c) / (1 + 2 * l2 * step))"
  proof -
    have "1 / d * (1 * (- step * s) + (step * g + x)) = (x + step * g - step * s) / d"
      for d g s x :: real
      by (simp add: divide_inverse algebra_simps)
    then show ?thesis by (simp only:)
  qed
  also have "\<dots> = spec_pg_update S l2 step k B X Xind nnz_this a ! c"
    using c by (simp add: spec_pg_update_def nth_calc_grad_pgd)
  finally show "pg_row B X Xind nnz_this k (1 / (1 + 2 * l2 * step))
                  (cblas_dscal k (- step) S) step a ! c
        = spec_pg_update S l2 step k B X Xind nnz_this a ! c" .
qed

lemma fold_const_funpow: "fold (\<lambda>p. f) [0..<m] v = (f ^^ m) v"
  by (induction m) simp_all

lemma fold_cong_len:
  assumes "length M = L" "\<And>j M. length M = L \<Longrightarrow> F j M = G j M"
    "\<And>j M. length M = L \<Longrightarrow> length (G j M) = L"
  shows "fold F js M = fold G js M"
  using assms(1) by (induction js arbitrary: M) (simp_all add: assms(2,3))

lemma pg_updates_row:
  assumes "ia * k + k \<le> length A"
  shows "fold (\<lambda>p A. pg_update B Xr Xr_indptr Xr_indices k cnst_div Bsum step_size ia nnz_this A)
              [0..<maxupd] A
         = store (ia * k)
             ((pg_row B (drop (Xr_indptr ! ia) Xr) (drop (Xr_indptr ! ia) Xr_indices) nnz_this k
                 cnst_div Bsum step_size ^^ maxupd) (vec k (ia * k) A))
             A"
proof -
  let ?r = "pg_row B (drop (Xr_indptr ! ia) Xr) (drop (Xr_indptr ! ia) Xr_indices) nnz_this k
              cnst_div Bsum step_size"
  let ?G = "\<lambda>p M. store (ia * k) ((\<lambda>p. ?r) p (vec k (ia * k) M)) M"
  have G: "pg_update B Xr Xr_indptr Xr_indices k cnst_div Bsum step_size ia nnz_this M = ?G p M"
    if "length M = length A" for p :: nat and M
    using that assms by (simp add: pg_update_row)
  have lG: "length (?G p M) = length A" if "length M = length A" for p :: nat and M
    using that assms by (simp add: length_store length_vec)
  have "fold (\<lambda>p A. pg_update B Xr Xr_indptr Xr_indices k cnst_div Bsum step_size ia nnz_this A)
              [0..<maxupd] A
        = fold ?G [0..<maxupd] A"
    by (rule fold_cong_len [where L = "length A", OF refl G lG])
  also have "\<dots> = store (ia * k) (fold (\<lambda>p. ?r) [0..<maxupd] (vec k (ia * k) A)) A"
    by (rule fold_store_row_eq [where h = "\<lambda>p. ?r", OF assms]) simp
  finally show ?thesis by (simp only: fold_const_funpow)
qed

lemma length_funpow_pres:
  fixes f :: "'a list \<Rightarrow> 'a list"
  assumes "\<And>v. length (f v) = length v"
  shows "length ((f ^^ m) v) = length v"
  by (induction m) (simp_all add: assms)

lemma pg_iteration_rows:
  assumes "length A = dimA * k"
  shows "length (pg_iteration A B Xr Xr_indptr Xr_indices dimA k cnst_div cnst_sum Bsum_user
                   step_size w_mult maxupd) = dimA * k"
    and "ia < dimA \<Longrightarrow>
         vec k (ia * k) (pg_iteration A B Xr Xr_indptr Xr_indices dimA k cnst_div cnst_sum
                           Bsum_user step_size w_mult maxupd)
         = (pg_row B (drop (Xr_indptr ! ia) Xr) (drop (Xr_indptr ! ia) Xr_indices)
              (Xr_indptr ! (ia + 1) - Xr_indptr ! ia) k cnst_div
              (if w_mult \<noteq> 1 then vec k (ia * k) Bsum_user else cnst_sum)
              (step_size * w_mult) ^^ maxupd) (vec k (ia * k) A)"
proof -
  let ?g = "\<lambda>ia. pg_row B (drop (Xr_indptr ! ia) Xr) (drop (Xr_indptr ! ia) Xr_indices)
              (Xr_indptr ! (ia + 1) - Xr_indptr ! ia) k cnst_div
              (if w_mult \<noteq> 1 then vec k (ia * k) Bsum_user else cnst_sum)
              (step_size * w_mult) ^^ maxupd"
  let ?F = "\<lambda>ia A.
              (let nnz_this = Xr_indptr ! (ia + 1) - Xr_indptr ! ia;
                   Bsum = (if w_mult \<noteq> 1 then vec k (ia * k) Bsum_user else cnst_sum)
               in fold (\<lambda>p A. pg_update B Xr Xr_indptr Xr_indices k cnst_div Bsum
                                 (step_size * w_mult) ia nnz_this A)
                       [0..<maxupd] A)"
  have def: "pg_iteration A B Xr Xr_indptr Xr_indices dimA k cnst_div cnst_sum Bsum_user
               step_size w_mult maxupd = fold ?F [0..<dimA] A"
    by (simp add: pg_iteration_def Let_def)
  have loc: "?F r M = store (r * k) (?g r (vec k (r * k) M)) M"
    if "r < dimA" "length M = dimA * k" for r M
  proof -
    have "r * k + k \<le> length M" using that row_bounds [of r dimA k] by simp
    then show ?thesis unfolding Let_def by (rule pg_updates_row)
  qed
  have lg: "length (?g r v) = k" if "length v = k" for r v
    using that by (simp add: length_funpow_pres)
  show "length (pg_iteration A B Xr Xr_indptr Xr_indices dimA k cnst_div cnst_sum Bsum_user
                   step_size w_mult maxupd) = dimA * k"
    unfolding def by (rule fold_rows(1) [where g = ?g, OF assms le_refl loc lg])
  assume ia: "ia < dimA"
  have "vec k (ia * k) (fold ?F [0..<dimA] A)
        = (if ia < dimA then ?g ia (vec k (ia * k) A) else vec k (ia * k) A)"
    by (rule fold_rows(2) [where g = ?g, OF assms le_refl loc lg ia])
  then show "vec k (ia * k) (pg_iteration A B Xr Xr_indptr Xr_indices dimA k cnst_div cnst_sum
                           Bsum_user step_size w_mult maxupd)
         = ?g ia (vec k (ia * k) A)"
    unfolding def using ia by simp
qed

subsection \<open>The step size of projected gradient\<close>

lemma update_A_pg_call:
  assumes "p_method P = pg" "st_neg_step_sz st = - st_step_size st"
  shows "st_A (update_A env P cd st)
         = pg_iteration (st_A st) (st_B st) (p_Xr P) (p_Xr_indptr P) (p_Xr_indices P)
             (p_dimA P) (p_k P) cd (pg_cnst_sum_A P (st_step_size st) (st_B st))
             (pg_Bsum_w_A P (st_step_size st) (st_B st)) (st_step_size st) (p_w_mult P)
             (p_maxupd P)"
  using assms
  by (simp add: update_A_def Let_def split_beta pg_cnst_sum_A_def pg_Bsum_w_A_def)

lemma update_B_pg_call:
  assumes "p_method P = pg" "st_neg_step_sz st = - st_step_size st"
  shows "st_B (update_B env P cd st)
         = pg_iteration (st_B st) (st_A st) (p_Xc P) (p_Xc_indptr P) (p_Xc_indices P)
             (p_dimB P) (p_k P) cd (pg_cnst_sum_B P (st_step_size st) (st_A st))
             (pg_Bsum_w_B P (st_step_size st) (st_A st)) (st_step_size st) (p_w_mult P)
             (p_maxupd P)"
  using assms
  by (simp add: update_B_def Let_def split_beta pg_cnst_sum_B_def pg_Bsum_w_B_def)

lemma update_A_pg_length:
  assumes "p_method P = pg" "length (st_A st) = p_dimA P * p_k P"
  shows "length (st_A (update_A env P cd st)) = p_dimA P * p_k P"
  using assms by (simp add: update_A_def Let_def split_beta pg_iteration_rows(1))

lemma update_B_pg_length:
  assumes "p_method P = pg" "length (st_B st) = p_dimB P * p_k P"
  shows "length (st_B (update_B env P cd st)) = p_dimB P * p_k P"
  using assms by (simp add: update_B_def Let_def split_beta pg_iteration_rows(1))

lemma run_halves_pg_lengths:
  assumes "p_method P = pg"
    "length (st_A st) = p_dimA P * p_k P \<and> length (st_B st) = p_dimB P * p_k P"
  shows "length (st_A (run_halves env P c h st)) = p_dimA P * p_k P
         \<and> length (st_B (run_halves env P c h st)) = p_dimB P * p_k P"
  using assms(2)
proof (induction c arbitrary: h st)
  case 0
  then show ?case by simp
next
  case (Suc c)
  have "length (st_A (half_step env P h st)) = p_dimA P * p_k P
        \<and> length (st_B (half_step env P h st)) = p_dimB P * p_k P"
    using Suc.prems assms(1)
    by (simp add: half_step_def update_A_frame update_B_frame update_A_pg_length
        update_B_pg_length)
  then show ?case using Suc.IH by simp
qed

lemma update_A_pg_row:
  assumes "p_method P = pg" "st_neg_step_sz st = - st_step_size st"
    "length (st_A st) = p_dimA P * p_k P" "ia < p_dimA P"
  shows "vec (p_k P) (ia * p_k P)
           (st_A (update_A env P (1 / (1 + 2 * p_l2_reg P * st_step_size st)) st))
         = (pg_row_A P (st_step_size st) (st_B st) ia ^^ p_maxupd P)
             (vec (p_k P) (ia * p_k P) (st_A st))"
  unfolding update_A_pg_call [OF assms(1,2)] pg_row_A_def
  by (rule pg_iteration_rows(2) [OF assms(3,4)])

lemma update_B_pg_row:
  assumes "p_method P = pg" "st_neg_step_sz st = - st_step_size st"
    "length (st_B st) = p_dimB P * p_k P" "ib < p_dimB P"
  shows "vec (p_k P) (ib * p_k P)
           (st_B (update_B env P (1 / (1 + 2 * p_l2_reg P * st_step_size st)) st))
         = (pg_row_B P (st_step_size st) (st_A st) ib ^^ p_maxupd P)
             (vec (p_k P) (ib * p_k P) (st_B st))"
  unfolding update_B_pg_call [OF assms(1,2)] pg_row_B_def
  by (rule pg_iteration_rows(2) [OF assms(3,4)])

text \<open>
  Claim C7. Projected gradient, initial step \<open>s0\<close>, no interrupt up to outer
  iteration \<open>n < numiter\<close>. The loop reaches iteration \<open>n\<close> in the state \<open>st\<close> after \<open>n\<close>
  full iterations, whose step size is \<open>s = s0 * 0.5 ^ n\<close> (and \<^verbatim>\<open>neg_step_sz\<close> its
  negation). Iteration \<open>n\<close> runs both half-iterations with that value: the \<open>A\<close> half
  is the call of \<^verbatim>\<open>pg_iteration\<close> on \<open>A\<close> with \<^verbatim>\<open>step_size\<close> \<open>s\<close>,
  \<^verbatim>\<open>cnst_div\<close> \<open>1 / (1 + 2 * l2_reg * s)\<close> and the aggregate statistics scaled by \<open>- s\<close>,
  and it leaves the step as it is; the \<open>B\<close> half is the call of \<^verbatim>\<open>pg_iteration\<close> on
  \<open>B\<close> and the new \<open>A\<close> with the same \<open>s\<close>, the same \<^verbatim>\<open>cnst_div\<close> and its statistics
  scaled by \<open>- s\<close>; only after the second half is the step \<open>s0 * 0.5 ^ (n + 1)\<close>.
  Row by row, for well-formed matrices and where the predicted values are strictly
  positive, each half applies \<open>maxupd\<close> times the row update at step \<open>s\<close>.
\<close>

theorem pg_step_size_decay:
  fixes env P A B s0 n ia ib
  defines "st \<equiv> run_halves env P (2 * n) 0 (init_state A B s0)"
    and "s \<equiv> s0 * 0.5 ^ n"
  defines "cd \<equiv> 1 / (1 + 2 * p_l2_reg P * s)"
  defines "st' \<equiv> update_A env P cd st"
  assumes "p_method P = pg" and "n < p_numiter P" and "\<forall>m<2 * n + 2. \<not> env_sigint env m"
  shows "main_loop env P (p_numiter P) 0 (init_state A B s0)
           = main_loop env P (p_numiter P - n) n st
         \<and> st_step_size st = s \<and> st_neg_step_sz st = - s
         \<and> main_loop env P (p_numiter P - n) n st
             = main_loop env P (p_numiter P - Suc n) (Suc n) (update_B env P cd st')
         \<and> st_A st'
             = pg_iteration (st_A st) (st_B st) (p_Xr P) (p_Xr_indptr P) (p_Xr_indices P)
                 (p_dimA P) (p_k P) cd (pg_cnst_sum_A P s (st_B st)) (pg_Bsum_w_A P s (st_B st))
                 s (p_w_mult P) (p_maxupd P)
         \<and> st_step_size st' = s \<and> st_neg_step_sz st' = - s
         \<and> st_B (update_B env P cd st')
             = pg_iteration (st_B st') (st_A st') (p_Xc P) (p_Xc_indptr P) (p_Xc_indices P)
                 (p_dimB P) (p_k P) cd (pg_cnst_sum_B P s (st_A st'))
                 (pg_Bsum_w_B P s (st_A st')) s (p_w_mult P) (p_maxupd P)
         \<and> st_step_size (update_B env P cd st') = s0 * 0.5 ^ Suc n
         \<and> (length A = p_dimA P * p_k P \<and> length B = p_dimB P * p_k P \<and> ia < p_dimA P
              \<and> (\<forall>j<p_maxupd P.
                    dots_positive (p_k P) (st_B st)
                      (drop (p_Xr_indptr P ! ia) (p_Xr_indices P))
                      (p_Xr_indptr P ! (ia + 1) - p_Xr_indptr P ! ia)
                      ((pg_row_A P s (st_B st) ia ^^ j) (vec (p_k P) (ia * p_k P) (st_A st))))
              \<longrightarrow> vec (p_k P) (ia * p_k P) (st_A st')
                    = (pg_row_A P s (st_B st) ia ^^ p_maxupd P)
                        (vec (p_k P) (ia * p_k P) (st_A st)))
         \<and> (length A = p_dimA P * p_k P \<and> length B = p_dimB P * p_k P \<and> ib < p_dimB P
              \<and> (\<forall>j<p_maxupd P.
                    dots_positive (p_k P) (st_A st')
                      (drop (p_Xc_indptr P ! ib) (p_Xc_indices P))
                      (p_Xc_indptr P ! (ib + 1) - p_Xc_indptr P ! ib)
                      ((pg_row_B P s (st_A st') ib ^^ j) (vec (p_k P) (ib * p_k P) (st_B st'))))
              \<longrightarrow> vec (p_k P) (ib * p_k P) (st_B (update_B env P cd st'))
                    = (pg_row_B P s (st_A st') ib ^^ p_maxupd P)
                        (vec (p_k P) (ib * p_k P) (st_B st')))"
proof -
  have i0: "\<not> should_stop_procedure (init_state A B s0)" "st_step_size (init_state A B s0) = s0"
    "st_neg_step_sz (init_state A B s0) = - st_step_size (init_state A B s0)"
    by (simp_all add: init_state_def)
  have quiet: "\<forall>m<2 * n. \<not> env_sigint env (2 * 0 + m)"
    using assms(7) by simp
  have "main_loop env P (n + (p_numiter P - n)) 0 (init_state A B s0)
        = main_loop env P (p_numiter P - n) (0 + n)
            (run_halves env P (2 * n) (2 * 0) (init_state A B s0))"
    using i0(1) quiet by (rule main_loop_quiet)
  then have a: "main_loop env P (p_numiter P) 0 (init_state A B s0)
        = main_loop env P (p_numiter P - n) n st"
    using assms(6) by (simp add: st_def)
  have b: "st_step_size st = s"
    using pg_step_after_iterations [OF assms(5), of env n 0 "init_state A B s0"] i0(2)
    by (simp add: st_def s_def)
  have b': "st_neg_step_sz st = - st_step_size st"
    using pg_neg_step_after_iterations [OF assms(5) i0(3), of env n 0] by (simp add: st_def)
  have fl: "\<not> should_stop_procedure st"
  proof -
    have "should_stop_procedure (run_halves env P c h z) = should_stop_procedure z" for c h z
      by (induction c arbitrary: h z) (simp_all add: half_step_flag)
    then show ?thesis using i0(1) by (simp add: st_def)
  qed
  have q0: "\<not> env_sigint env (2 * n)" and q1: "\<not> env_sigint env (2 * n + 1)"
    using assms(7) by simp_all
  have S: "p_numiter P - n = Suc (p_numiter P - Suc n)"
    using assms(6) by simp
  have cdo: "cnst_div_of P st = cd"
    by (simp add: cnst_div_of_def b cd_def)
  have c: "main_loop env P (p_numiter P - n) n st
        = main_loop env P (p_numiter P - Suc n) (Suc n) (update_B env P cd st')"
    unfolding S st'_def cdo [symmetric] using fl q0 q1 by (rule main_loop_step)
  have sA: "st_step_size st' = s" "st_neg_step_sz st' = - st_step_size st'"
    using b b' by (simp_all add: st'_def update_A_frame)
  have callA: "st_A st'
             = pg_iteration (st_A st) (st_B st) (p_Xr P) (p_Xr_indptr P) (p_Xr_indices P)
                 (p_dimA P) (p_k P) cd (pg_cnst_sum_A P s (st_B st)) (pg_Bsum_w_A P s (st_B st))
                 s (p_w_mult P) (p_maxupd P)"
    using update_A_pg_call [OF assms(5) b', of env cd] b by (simp add: st'_def)
  have callB: "st_B (update_B env P cd st')
             = pg_iteration (st_B st') (st_A st') (p_Xc P) (p_Xc_indptr P) (p_Xc_indices P)
                 (p_dimB P) (p_k P) cd (pg_cnst_sum_B P s (st_A st'))
                 (pg_Bsum_w_B P s (st_A st')) s (p_w_mult P) (p_maxupd P)"
    using update_B_pg_call [OF assms(5) sA(2), of env cd] sA(1) by simp
  have sB: "st_step_size (update_B env P cd st') = s0 * 0.5 ^ Suc n"
    using sA(1) assms(5) by (simp add: update_B_frame s_def)
  have rowA: "vec (p_k P) (ia * p_k P) (st_A st')
                    = (pg_row_A P s (st_B st) ia ^^ p_maxupd P)
                        (vec (p_k P) (ia * p_k P) (st_A st))"
    if "length A = p_dimA P * p_k P" "length B = p_dimB P * p_k P" "ia < p_dimA P"
  proof -
    have "length (st_A st) = p_dimA P * p_k P"
      using run_halves_pg_lengths [OF assms(5), of "init_state A B s0" env "2 * n" 0] that
      by (simp add: st_def init_state_def)
    then show ?thesis
      using update_A_pg_row [OF assms(5) b' _ that(3), of env] b
      by (simp add: st'_def cd_def)
  qed
  have rowB: "vec (p_k P) (ib * p_k P) (st_B (update_B env P cd st'))
                    = (pg_row_B P s (st_A st') ib ^^ p_maxupd P)
                        (vec (p_k P) (ib * p_k P) (st_B st'))"
    if "length A = p_dimA P * p_k P" "length B = p_dimB P * p_k P" "ib < p_dimB P"
  proof -
    have "length (st_B st) = p_dimB P * p_k P"
      using run_halves_pg_lengths [OF assms(5), of "init_state A B s0" env "2 * n" 0] that
      by (simp add: st_def init_state_def)
    then have "length (st_B st') = p_dimB P * p_k P"
      by (simp add: st'_def update_A_frame)
    then show ?thesis
      using update_B_pg_row [OF assms(5) sA(2) _ that(3), of env] sA(1)
      by (simp add: cd_def)
  qed
  show ?thesis
    using a b b' c callA sA callB sB rowA rowB by simp
qed

theorem pg_step_size_decay_witness:
  "p_method scenario = pg \<and> (0::nat) < p_numiter scenario
   \<and> \<not> env_sigint (clip_env (\<lambda>b. True) (\<lambda>n. False)) 0
   \<and> \<not> env_sigint (clip_env (\<lambda>b. True) (\<lambda>n. False)) 1
   \<and> st_step_size (run_halves (clip_env (\<lambda>b. True) (\<lambda>n. False)) scenario (2 * 0) 0
        (init_state [1, 1] [1, 1] (1 / 10))) = 1 / 10
   \<and> st_A (update_A (clip_env (\<lambda>b. True) (\<lambda>n. False)) scenario 1
             (init_state [1, 1] [1, 1] (1 / 10)))
       = pg_iteration [1, 1] [1, 1] [1, 1] [0, 1, 2] [0, 1] 2 1 1
           (pg_cnst_sum_A scenario (1 / 10) [1, 1]) (pg_Bsum_w_A scenario (1 / 10) [1, 1])
           (1 / 10) 1 1
   \<and> st_step_size
        (update_A (clip_env (\<lambda>b. True) (\<lambda>n. False)) scenario 1
           (init_state [1, 1] [1, 1] (1 / 10))) = 1 / 10
   \<and> st_step_size
        (update_B (clip_env (\<lambda>b. True) (\<lambda>n. False)) scenario 1
           (update_A (clip_env (\<lambda>b. True) (\<lambda>n. False)) scenario 1
              (init_state [1, 1] [1, 1] (1 / 10)))) = 1 / 20
   \<and> length [1, 1 :: real] = p_dimA scenario * p_k scenario
   \<and> length [1, 1 :: real] = p_dimB scenario * p_k scenario
   \<and> 0 < p_dimA scenario \<and> 0 < p_dimB scenario
   \<and> dots_positive 1 [1, 1] [0, 1] 1 [1]
   \<and> vec 1 (0 * 1) (st_A (update_A (clip_env (\<lambda>b. True) (\<lambda>n. False)) scenario 1
                             (init_state [1, 1] [1, 1] (1 / 10)))) = [28 / 25]
   \<and> dots_positive 1 [28 / 25, 28 / 25] [0, 1] 1 [1]
   \<and> vec 1 (0 * 1) (st_B (update_B (clip_env (\<lambda>b. True) (\<lambda>n. False)) scenario 1
                             (update_A (clip_env (\<lambda>b. True) (\<lambda>n. False)) scenario 1
                                (init_state [1, 1] [1, 1] (1 / 10))))) = [219 / 250]"
proof -
  let ?E = "clip_env (\<lambda>b. True) (\<lambda>n. False)"
  let ?i = "init_state [1, 1] [1, 1] (1 / 10)"
  let ?a = "update_A ?E scenario 1 ?i"
  have sel: "p_l2_reg scenario = 0"
    "p_k scenario = 1" "p_dimA scenario = 2" "p_dimB scenario = 2" "p_w_mult scenario = 1"
    "p_maxupd scenario = 1" "p_Xr scenario = [1, 1]" "p_Xr_indptr scenario = [0, 1, 2]"
    "p_Xr_indices scenario = [0, 1]" "p_Xc scenario = [1, 1]"
    "p_Xc_indptr scenario = [0, 1, 2]" "p_Xc_indices scenario = [0, 1]"
    by (simp_all add: scenario_def)
  have m: "p_method scenario = pg" and n: "(0::nat) < p_numiter scenario"
    by (simp_all add: scenario_def)
  have ini: "st_A ?i = [1, 1]" "st_B ?i = [1, 1]"
    by (simp_all add: init_state_def)
  have q: "\<forall>m<2 * 0 + 2. \<not> env_sigint ?E m"
    by (simp add: clip_env_def)
  have q0: "\<not> env_sigint ?E 0" and q1: "\<not> env_sigint ?E 1"
    by (simp_all add: clip_env_def)
  have w9: "length [1, 1 :: real] = p_dimA scenario * p_k scenario"
    and w10: "length [1, 1 :: real] = p_dimB scenario * p_k scenario"
    and w11: "0 < p_dimA scenario" and w12: "0 < p_dimB scenario"
    by (simp_all add: sel)
  have p1: "dots_positive 1 [1, 1] [0, 1] 1 [1]"
    by (simp add: dots_positive_def cblas_ddot_def vec_def)
  have p2: "dots_positive 1 [28 / 25, 28 / 25] [0, 1] 1 [1]"
    by (simp add: dots_positive_def cblas_ddot_def vec_def)
  have eA: "st_A ?a = [28 / 25, 28 / 25]"
    by code_simp
  have eB: "st_B ?a = [1, 1]"
    by (simp add: update_A_frame ini)
  have stv: "run_halves ?E scenario (2 * 0) 0 ?i = ?i"
    by simp
  have sv: "1 / 10 * 0.5 ^ 0 = (1 / 10 :: real)" "1 / 10 * 0.5 ^ Suc 0 = (1 / 20 :: real)"
    "1 / (1 + 2 * 0 * (1 / 10)) = (1 :: real)"
    by simp_all
  note T = pg_step_size_decay [OF m n q, of "[1, 1]" "[1, 1]" "1 / 10" 0 0,
      unfolded stv sel sv ini]
  note c5 = T [THEN conjunct2, THEN conjunct2, THEN conjunct2, THEN conjunct2]
  note c6 = c5 [THEN conjunct2]
  note c8 = c6 [THEN conjunct2, THEN conjunct2]
  note c9 = c8 [THEN conjunct2]
  note c10 = c9 [THEN conjunct2]
  have w5: "st_step_size (run_halves ?E scenario (2 * 0) 0 ?i) = 1 / 10"
    by (simp add: init_state_def)
  have w6: "st_A ?a
       = pg_iteration [1, 1] [1, 1] [1, 1] [0, 1, 2] [0, 1] 2 1 1
           (pg_cnst_sum_A scenario (1 / 10) [1, 1]) (pg_Bsum_w_A scenario (1 / 10) [1, 1])
           (1 / 10) 1 1"
    by (rule c5 [THEN conjunct1])
  have w7: "st_step_size ?a = 1 / 10"
    by (rule c6 [THEN conjunct1])
  have w8: "st_step_size (update_B ?E scenario 1 ?a) = 1 / 20"
    by (rule c9 [THEN conjunct1])
  have anteA: "length [1, 1 :: real] = 2 * 1 \<and> length [1, 1 :: real] = 2 * 1 \<and> (0::nat) < 2
     \<and> (\<forall>j<1. dots_positive 1 [1, 1] (drop ([0, 1, 2] ! 0) [0, 1])
                  ([0, 1, 2] ! (0 + 1) - [0, 1, 2] ! 0)
                  ((pg_row_A scenario (1 / 10) [1, 1] 0 ^^ j) (vec 1 (0 * 1) [1, 1])))"
    by (simp add: dots_positive_def cblas_ddot_def vec_def)
  have rA: "(pg_row_A scenario (1 / 10) [1, 1] 0 ^^ 1) (vec 1 (0 * 1) [1, 1]) = [28 / 25]"
    by code_simp
  have w14: "vec 1 (0 * 1) (st_A ?a) = [28 / 25]"
    using c10 [THEN conjunct1, THEN mp, OF anteA] rA by (rule trans)
  have anteB: "length [1, 1 :: real] = 2 * 1 \<and> length [1, 1 :: real] = 2 * 1 \<and> (0::nat) < 2
     \<and> (\<forall>j<1. dots_positive 1 (st_A ?a) (drop ([0, 1, 2] ! 0) [0, 1])
                  ([0, 1, 2] ! (0 + 1) - [0, 1, 2] ! 0)
                  ((pg_row_B scenario (1 / 10) (st_A ?a) 0 ^^ j) (vec 1 (0 * 1) (st_B ?a))))"
    unfolding eA eB by (simp add: dots_positive_def cblas_ddot_def vec_def)
  have rB: "(pg_row_B scenario (1 / 10) (st_A ?a) 0 ^^ 1) (vec 1 (0 * 1) (st_B ?a))
            = [219 / 250]"
    by code_simp
  have w16: "vec 1 (0 * 1) (st_B (update_B ?E scenario 1 ?a)) = [219 / 250]"
    using c10 [THEN conjunct2, THEN mp, OF anteB] rB by (rule trans)
  show ?thesis
    by (intro conjI) (fact m n q0 q1 w5 w6 w7 w8 w9 w10 w11 w12 p1 w14 p2 w16)+
qed

subsection \<open>Non-negativity of the factors\<close>

lemma store_list_all:
  "list_all P M \<Longrightarrow> list_all P v \<Longrightarrow> list_all P (store off v M)"
  by (auto simp add: store_def list_all_iff dest: in_set_takeD in_set_dropD)

lemma vec_list_all: "list_all P M \<Longrightarrow> list_all P (vec n off M)"
  by (auto simp add: vec_def list_all_iff dest: in_set_takeD in_set_dropD)

lemma fold_rows_inv:
  assumes len: "length M = n * k" and P: "list_all P M" and m: "m \<le> n"
    and loc: "\<And>i M. i < n \<Longrightarrow> length M = n * k
                \<Longrightarrow> F i M = store (i * k) (g i (vec k (i * k) M)) M"
    and lg: "\<And>i v. length v = k \<Longrightarrow> list_all P v
               \<Longrightarrow> length (g i v) = k \<and> list_all P (g i v)"
  shows "length (fold F [0..<m] M) = n * k \<and> list_all P (fold F [0..<m] M)"
  using m
proof (induction m)
  case 0
  then show ?case using len P by simp
next
  case (Suc m)
  let ?M = "fold F [0..<m] M"
  have IH: "length ?M = n * k" "list_all P ?M" using Suc by simp_all
  have mn: "m < n" using Suc.prems by simp
  have b: "m * k + k \<le> length ?M" using IH(1) mn row_bounds [of m n k] by simp
  have v: "length (vec k (m * k) ?M) = k" "list_all P (vec k (m * k) ?M)"
    using b IH(2) by (simp_all add: length_vec vec_list_all)
  have g: "length (g m (vec k (m * k) ?M)) = k" "list_all P (g m (vec k (m * k) ?M))"
    using lg [OF v] by simp_all
  have e: "fold F [0..<Suc m] M = store (m * k) (g m (vec k (m * k) ?M)) ?M"
    using loc [OF mn IH(1)] by simp
  show ?case
    unfolding e using g b IH by (simp add: length_store store_list_all)
qed

lemma funpow_inv:
  fixes f :: "'a list \<Rightarrow> 'a list"
  assumes "\<And>v. length (f v) = length v" "\<And>v. list_all P (f v)" "list_all P v"
  shows "list_all P ((f ^^ m) v)"
  by (cases m) (simp_all add: assms)

lemma pg_iteration_inv:
  assumes "length A = dimA * k" "list_all (\<lambda>x. 0 \<le> x) A"
  shows "length (pg_iteration A B Xr Xr_indptr Xr_indices dimA k cnst_div cnst_sum Bsum_user
                   step_size w_mult maxupd) = dimA * k
         \<and> list_all (\<lambda>x. 0 \<le> x)
              (pg_iteration A B Xr Xr_indptr Xr_indices dimA k cnst_div cnst_sum Bsum_user
                 step_size w_mult maxupd)"
proof -
  let ?g = "\<lambda>ia. pg_row B (drop (Xr_indptr ! ia) Xr) (drop (Xr_indptr ! ia) Xr_indices)
              (Xr_indptr ! (ia + 1) - Xr_indptr ! ia) k cnst_div
              (if w_mult \<noteq> 1 then vec k (ia * k) Bsum_user else cnst_sum)
              (step_size * w_mult) ^^ maxupd"
  let ?F = "\<lambda>ia A.
              (let nnz_this = Xr_indptr ! (ia + 1) - Xr_indptr ! ia;
                   Bsum = (if w_mult \<noteq> 1 then vec k (ia * k) Bsum_user else cnst_sum)
               in fold (\<lambda>p A. pg_update B Xr Xr_indptr Xr_indices k cnst_div Bsum
                                 (step_size * w_mult) ia nnz_this A)
                       [0..<maxupd] A)"
  have def: "pg_iteration A B Xr Xr_indptr Xr_indices dimA k cnst_div cnst_sum Bsum_user
               step_size w_mult maxupd = fold ?F [0..<dimA] A"
    by (simp add: pg_iteration_def Let_def)
  have loc: "?F r M = store (r * k) (?g r (vec k (r * k) M)) M"
    if "r < dimA" "length M = dimA * k" for r M
  proof -
    have "r * k + k \<le> length M" using that row_bounds [of r dimA k] by simp
    then show ?thesis unfolding Let_def by (rule pg_updates_row)
  qed
  have lg: "length (?g r v) = k \<and> list_all (\<lambda>x. 0 \<le> x) (?g r v)"
    if "length v = k" "list_all (\<lambda>x. 0 \<le> x) v" for r v
    using that by (simp add: length_funpow_pres funpow_inv pg_row_nonneg)
  show ?thesis
    unfolding def by (rule fold_rows_inv [where g = ?g, OF assms le_refl loc lg])
qed

lemma cg_iteration_inv:
  assumes "nonneg_minimizers env" "length A = dimA * k" "list_all (\<lambda>x. 0 \<le> x) A"
  shows "length (cg_iteration (env_minimize_nonneg_cg env) A B Xr Xr_indptr Xr_indices dimA k
                   limit_step Bsum l2_reg w_mult maxupd Bsum_w) = dimA * k
         \<and> list_all (\<lambda>x. 0 \<le> x)
              (cg_iteration (env_minimize_nonneg_cg env) A B Xr Xr_indptr Xr_indices dimA k
                 limit_step Bsum l2_reg w_mult maxupd Bsum_w)"
proof -
  let ?g = "\<lambda>ia v. env_minimize_nonneg_cg env v k calc_fun_single (grad_fun w_mult)
                      (row_data B Xr Xr_indptr Xr_indices k Bsum l2_reg w_mult Bsum_w ia)
                      maxupd limit_step"
  have lg: "length (?g r v) = k \<and> list_all (\<lambda>x. 0 \<le> x) (?g r v)"
    if "length v = k" "list_all (\<lambda>x. 0 \<le> x) v" for r v
    using that assms(1) by (simp add: nonneg_minimizers_def)
  show ?thesis
    unfolding cg_iteration_def
    by (rule fold_rows_inv [where g = ?g, OF assms(2,3) le_refl refl lg])
qed

lemma tncg_iteration_inv:
  assumes "nonneg_minimizers env" "length A = dimA * k" "list_all (\<lambda>x. 0 \<le> x) A"
  shows "length (tncg_iteration (env_tnc env) A B Xr Xr_indptr Xr_indices dimA k
                   Bsum l2_reg w_mult maxupd (replicate k 0) inf_tncg Bsum_w) = dimA * k
         \<and> list_all (\<lambda>x. 0 \<le> x)
              (tncg_iteration (env_tnc env) A B Xr Xr_indptr Xr_indices dimA k
                 Bsum l2_reg w_mult maxupd (replicate k 0) inf_tncg Bsum_w)"
proof -
  let ?g = "\<lambda>ia v. env_tnc env k v calc_fun_and_grad
                      (row_data B Xr Xr_indptr Xr_indices k Bsum l2_reg w_mult Bsum_w ia)
                      (replicate k 0) inf_tncg (maxCGit k) maxupd"
  have lg: "length (?g r v) = k \<and> list_all (\<lambda>x. 0 \<le> x) (?g r v)"
    if "length v = k" "list_all (\<lambda>x. 0 \<le> x) v" for r v
  proof -
    have l: "length (?g r v) = k"
      using that assms(1) by (simp add: nonneg_minimizers_def)
    have "\<forall>c<k. replicate k 0 ! c \<le> ?g r v ! c"
      using assms(1) that(1) unfolding nonneg_minimizers_def by blast
    then have "\<forall>c<length (?g r v). 0 \<le> ?g r v ! c"
      using l by simp
    then have "list_all (\<lambda>x. 0 \<le> x) (?g r v)"
      unfolding list_all_length by simp
    then show ?thesis using l by simp
  qed
  show ?thesis
    unfolding tncg_iteration_def
    by (rule fold_rows_inv [where g = ?g, OF assms(2,3) le_refl refl lg])
qed

lemma update_A_ok:
  assumes "nonneg_minimizers env" "state_ok P st"
  shows "state_ok P (update_A env P cd st)"
proof -
  have B: "st_B (update_A env P cd st) = st_B st" by (rule update_A_frame)
  have A: "length (st_A (update_A env P cd st)) = p_dimA P * p_k P
           \<and> list_all (\<lambda>x. 0 \<le> x) (st_A (update_A env P cd st))"
  proof (cases "p_method P")
    case pg
    then show ?thesis
      using assms(2) unfolding state_ok_def
      by (simp add: update_A_def Let_def split_beta pg_iteration_inv)
  next
    case cg
    then show ?thesis
      using assms unfolding state_ok_def
      by (simp add: update_A_def Let_def split_beta cg_iteration_inv)
  next
    case tncg
    then show ?thesis
      using assms unfolding state_ok_def
      by (simp add: update_A_def Let_def split_beta tncg_iteration_inv)
  qed
  show ?thesis
    using A B assms(2) unfolding state_ok_def by simp
qed

lemma update_B_ok:
  assumes "nonneg_minimizers env" "state_ok P st"
  shows "state_ok P (update_B env P cd st)"
proof -
  have A: "st_A (update_B env P cd st) = st_A st" by (rule update_B_frame)
  have B: "length (st_B (update_B env P cd st)) = p_dimB P * p_k P
           \<and> list_all (\<lambda>x. 0 \<le> x) (st_B (update_B env P cd st))"
  proof (cases "p_method P")
    case pg
    then show ?thesis
      using assms(2) unfolding state_ok_def
      by (simp add: update_B_def Let_def split_beta pg_iteration_inv)
  next
    case cg
    then show ?thesis
      using assms unfolding state_ok_def
      by (simp add: update_B_def Let_def split_beta cg_iteration_inv)
  next
    case tncg
    then show ?thesis
      using assms unfolding state_ok_def
      by (simp add: update_B_def Let_def split_beta tncg_iteration_inv)
  qed
  show ?thesis
    using A B assms(2) unfolding state_ok_def by simp
qed

lemma run_halves_ok:
  assumes "nonneg_minimizers env" "state_ok P st"
  shows "state_ok P (run_halves env P c h st)"
  using assms(2)
  by (induction c arbitrary: h st) (simp_all add: half_step_def update_A_ok update_B_ok assms(1))

lemma poll_ok: "state_ok P (poll env n st) = state_ok P st"
  by (simp add: poll_def state_ok_def)

lemma main_loop_ok:
  assumes "nonneg_minimizers env" "state_ok P st"
  shows "state_ok P (main_loop env P n f st)"
  using assms(2)
proof (induction n arbitrary: f st)
  case 0
  then show ?case by simp
next
  case (Suc n)
  let ?cd = "1 / (1 + 2 * p_l2_reg P * st_step_size (poll env (2 * f) st))"
  let ?s1 = "poll env (2 * f) st"
  let ?s2 = "poll env (2 * f + 1) (update_A env P ?cd ?s1)"
  have o1: "state_ok P ?s1" using Suc.prems by (simp add: poll_ok)
  have o2: "state_ok P ?s2" using o1 assms(1) by (simp add: poll_ok update_A_ok)
  have o3: "state_ok P (main_loop env P n (Suc f) (update_B env P ?cd ?s2))"
    using o2 assms(1) by (intro Suc.IH update_B_ok)
  show ?case
    using o1 o2 o3 by (simp add: Let_def)
qed

lemma clip_env_contract: "nonneg_minimizers (clip_env ok sig)"
  by (auto simp add: nonneg_minimizers_def clip_env_def list_all_iff nonneg_def)

text \<open>
  Claim C5. If \<open>A\<close> and \<open>B\<close> have their declared sizes and start with all entries
  \<open>\<ge> 0\<close>, and the two external minimizers keep to their non-negativity bounds, then
  after any number \<open>c\<close> of half-iterations, and in what \<^verbatim>\<open>run_poismf\<close> returns under
  any interrupts and allocation outcomes, every entry of \<open>A\<close> and of \<open>B\<close> is \<open>\<ge> 0\<close>, for
  each of the three methods (projected gradient by its clip).
\<close>

theorem nonneg_invariant:
  assumes "nonneg_minimizers env"
    and "length A = p_dimA P * p_k P" and "length B = p_dimB P * p_k P"
    and "list_all (\<lambda>x. 0 \<le> x) A" and "list_all (\<lambda>x. 0 \<le> x) B"
  shows "list_all (\<lambda>x. 0 \<le> x) (st_A (run_halves env P c 0 (init_state A B s)))
         \<and> list_all (\<lambda>x. 0 \<le> x) (st_B (run_halves env P c 0 (init_state A B s)))
         \<and> list_all (\<lambda>x. 0 \<le> x) (res_A (run_poismf env flag0 P A B s))
         \<and> list_all (\<lambda>x. 0 \<le> x) (res_B (run_poismf env flag0 P A B s))"
proof -
  have i: "state_ok P (init_state A B s)"
    using assms(2-5) by (simp add: state_ok_def init_state_def)
  have h: "state_ok P (run_halves env P c 0 (init_state A B s))"
    using assms(1) i by (rule run_halves_ok)
  have m: "state_ok P (main_loop env P (p_numiter P) 0 (init_state A B s))"
    using assms(1) i by (rule main_loop_ok)
  show ?thesis
    using i h m by (simp add: run_poismf_unfold state_ok_def)
qed

theorem nonneg_invariant_witness:
  "nonneg_minimizers (clip_env (\<lambda>b. True) (\<lambda>n. False))
   \<and> length [1, 1 :: real] = p_dimA scenario * p_k scenario
   \<and> length [1, 1 :: real] = p_dimB scenario * p_k scenario
   \<and> list_all (\<lambda>x. 0 \<le> x) [1, 1 :: real]
   \<and> list_all (\<lambda>x. 0 \<le> x)
        (st_A (run_halves (clip_env (\<lambda>b. True) (\<lambda>n. False)) scenario 1 0
                 (init_state [1, 1] [1, 1] (1 / 10))))
   \<and> list_all (\<lambda>x. 0 \<le> x)
        (st_B (run_halves (clip_env (\<lambda>b. True) (\<lambda>n. False)) scenario 1 0
                 (init_state [1, 1] [1, 1] (1 / 10))))
   \<and> list_all (\<lambda>x. 0 \<le> x)
        (res_A (run_poismf (clip_env (\<lambda>b. True) (\<lambda>n. False)) False scenario
                  [1, 1] [1, 1] (1 / 10)))
   \<and> list_all (\<lambda>x. 0 \<le> x)
        (res_B (run_poismf (clip_env (\<lambda>b. True) (\<lambda>n. False)) False scenario
                  [1, 1] [1, 1] (1 / 10)))"
proof -
  have l: "length [1, 1 :: real] = p_dimA scenario * p_k scenario"
    "length [1, 1 :: real] = p_dimB scenario * p_k scenario"
    by (simp_all add: scenario_def)
  have p: "list_all (\<lambda>x. 0 \<le> x) [1, 1 :: real]" by simp
  show ?thesis
    using nonneg_invariant [OF clip_env_contract l p p, of "\<lambda>b. True" "\<lambda>n. False" 1
        "1 / 10" False]
      clip_env_contract [of "\<lambda>b. True" "\<lambda>n. False"] l
    by simp
qed

subsection \<open>Aggregate statistics\<close>

lemma length_l1_loop [simp]:
  "length (fold (\<lambda>kk cnst_sum. cnst_sum[kk := cnst_sum ! kk + l1_reg]) [0..<k] cs) = length cs"
  using fold_update_ix_all [of "\<lambda>j x. x + l1_reg" k cs] by simp

lemma nth_l1_loop:
  "c < length cs \<Longrightarrow>
   fold (\<lambda>kk cnst_sum. cnst_sum[kk := cnst_sum ! kk + l1_reg]) [0..<k] cs ! c
     = (if c < k then cs ! c + l1_reg else cs ! c)"
  using fold_update_ix_all [of "\<lambda>j x. x + l1_reg" k cs] by simp

lemma aggregate_stats_fst:
  "length (fst (aggregate_stats B dimB Xr_indices Xr_indptr dimA k l1_reg w_mult)) = k"
  "c < k \<Longrightarrow>
   fst (aggregate_stats B dimB Xr_indices Xr_indptr dimA k l1_reg w_mult) ! c
     = (\<Sum>row<dimB. B ! (row * k + c)) + (if l1_reg > 0 then l1_reg else 0)"
  by (simp_all add: aggregate_stats_def Let_def nth_l1_loop nth_sum_by_cols)

text \<open>
  Claim C4. For a row \<open>i\<close> of the free dimension and a coordinate \<open>c\<close>: the aggregate
  vector is the column sum of the fixed matrix, plus the L1 constant when it is
  positive; for a weight other than 1 the row of the correction matrix is that
  baseline plus \<open>(weight - 1)\<close> times the sum of the fixed matrix's rows at the
  nonzero columns of row \<open>i\<close>, and it is what the row's context holds; for weight 1
  there is no correction matrix (the null pointer, not allocated, not read by
  \<^verbatim>\<open>pg_iteration\<close>) and the row's context holds the plain baseline.
\<close>

theorem weighted_correction:
  assumes "i < dimA" and "c < k"
  shows "fst (aggregate_stats B dimB Xr_indices Xr_indptr dimA k l1_reg w_mult) ! c
           = (\<Sum>row<dimB. B ! (row * k + c)) + (if l1_reg > 0 then l1_reg else 0)
         \<and> (w_mult \<noteq> 1 \<longrightarrow>
              vec k (i * k) (snd (aggregate_stats B dimB Xr_indices Xr_indptr dimA k l1_reg w_mult)) ! c
                = fst (aggregate_stats B dimB Xr_indices Xr_indptr dimA k l1_reg w_mult) ! c
                  + (w_mult - 1)
                    * (\<Sum>ix = Xr_indptr ! i..<Xr_indptr ! (i + 1).
                          vec k (Xr_indices ! ix * k) B ! c)
              \<and> fd_Bsum (row_data B Xr Xr_indptr Xr_indices k
                    (fst (aggregate_stats B dimB Xr_indices Xr_indptr dimA k l1_reg w_mult))
                    l2_reg w_mult
                    (snd (aggregate_stats B dimB Xr_indices Xr_indptr dimA k l1_reg w_mult)) i)
                = vec k (i * k)
                    (snd (aggregate_stats B dimB Xr_indices Xr_indptr dimA k l1_reg w_mult)))
         \<and> (w_mult = 1 \<longrightarrow>
              snd (aggregate_stats B dimB Xr_indices Xr_indptr dimA k l1_reg w_mult) = []
              \<and> fd_Bsum (row_data B Xr Xr_indptr Xr_indices k
                    (fst (aggregate_stats B dimB Xr_indices Xr_indptr dimA k l1_reg w_mult))
                    l2_reg w_mult
                    (snd (aggregate_stats B dimB Xr_indices Xr_indptr dimA k l1_reg w_mult)) i)
                = fst (aggregate_stats B dimB Xr_indices Xr_indptr dimA k l1_reg w_mult)
              \<and> pg_iteration A B Xr Xr_indptr Xr_indices dimA k cnst_div cnst_sum Bsum_user
                    step_size w_mult maxupd
                = pg_iteration A B Xr Xr_indptr Xr_indices dimA k cnst_div cnst_sum []
                    step_size w_mult maxupd)
         \<and> (p_w_mult P = 1 \<longrightarrow> Buf_Bsum_w \<notin> set (fst (allocate env P)))"
proof -
  have base: "fst (aggregate_stats B dimB Xr_indices Xr_indptr dimA k l1_reg w_mult) ! c
           = (\<Sum>row<dimB. B ! (row * k + c)) + (if l1_reg > 0 then l1_reg else 0)"
    using assms(2) by (rule aggregate_stats_fst)
  have corr: "vec k (i * k) (snd (aggregate_stats B dimB Xr_indices Xr_indptr dimA k l1_reg w_mult)) ! c
                = fst (aggregate_stats B dimB Xr_indices Xr_indptr dimA k l1_reg w_mult) ! c
                  + (w_mult - 1)
                    * (\<Sum>ix = Xr_indptr ! i..<Xr_indptr ! (i + 1).
                          vec k (Xr_indices ! ix * k) B ! c)"
    if "w_mult \<noteq> 1"
    using that adjustment_Bsum_row(2) [OF assms]
    by (simp add: aggregate_stats_def Let_def)
  have seen: "fd_Bsum (row_data B Xr Xr_indptr Xr_indices k S l2_reg w W i)
              = (if w \<noteq> 1 then vec k (i * k) W else S)" for S W w
    by (simp add: row_data_def Let_def)
  have none: "snd (aggregate_stats B dimB Xr_indices Xr_indptr dimA k l1_reg w_mult) = []"
    if "w_mult = 1"
    using that by (simp add: aggregate_stats_def Let_def)
  have unused: "pg_iteration A B Xr Xr_indptr Xr_indices dimA k cnst_div cnst_sum Bsum_user
                    step_size w_mult maxupd
                = pg_iteration A B Xr Xr_indptr Xr_indices dimA k cnst_div cnst_sum []
                    step_size w_mult maxupd"
    if "w_mult = 1"
    using that by (simp add: pg_iteration_def)
  have alloc: "Buf_Bsum_w \<notin> set (fst (allocate env P))" if "p_w_mult P = 1"
    using that by (simp add: allocate_def Let_def malloc_def)
  show ?thesis
    using base corr none unused alloc by (simp add: seen)
qed

theorem weighted_correction_witness:
  "(0::nat) < 1 \<and> (3::real) \<noteq> 1
   \<and> fst (aggregate_stats [2, 3] 2 [1] [0, 1] 1 1 0 3) ! 0 = 5
   \<and> vec 1 (0 * 1) (snd (aggregate_stats [2, 3] 2 [1] [0, 1] 1 1 0 3)) ! 0 = 11
   \<and> snd (aggregate_stats [2, 3] 2 [1] [0, 1] 1 1 0 1) = []
   \<and> p_w_mult scenario = 1
   \<and> Buf_Bsum_w \<notin> set (fst (allocate (clip_env (\<lambda>b. True) (\<lambda>n. False)) scenario))"
proof -
  have s1: "(\<Sum>row<2. [2, 3 :: real] ! (row * 1 + 0)) = 5"
    by (simp add: lessThan_Suc numeral_2_eq_2)
  have s2: "(\<Sum>ix = [0, 1 :: nat] ! 0..<[0, 1] ! (0 + 1). vec 1 ([1] ! ix * 1) [2, 3 :: real] ! 0) = 3"
    by (simp add: vec_def)
  have w: "p_w_mult scenario = 1" by (simp add: scenario_def)
  show ?thesis
    using
      weighted_correction [where i = 0 and dimA = 1 and c = 0 and k = 1 and B = "[2, 3]"
        and dimB = 2 and Xr_indices = "[1]" and Xr_indptr = "[0, 1]" and l1_reg = 0
        and w_mult = 3 and Xr = "[]" and l2_reg = 0 and A = "[]" and cnst_div = 1
        and cnst_sum = "[]" and Bsum_user = "[]" and step_size = 1 and maxupd = 0
        and P = scenario and env = "clip_env (\<lambda>b. True) (\<lambda>n. False)"]
      weighted_correction [where i = 0 and dimA = 1 and c = 0 and k = 1 and B = "[2, 3]"
        and dimB = 2 and Xr_indices = "[1]" and Xr_indptr = "[0, 1]" and l1_reg = 0
        and w_mult = 1 and Xr = "[]" and l2_reg = 0 and A = "[]" and cnst_div = 1
        and cnst_sum = "[]" and Bsum_user = "[]" and step_size = 1 and maxupd = 0
        and P = scenario and env = "clip_env (\<lambda>b. True) (\<lambda>n. False)"]
      s1 s2 w
    by simp
qed

subsection \<open>The projected-gradient update against the formula\<close>

lemma funpow_eq_on:
  fixes f g :: "'a list \<Rightarrow> 'a list"
  assumes "\<And>v. length v = k \<Longrightarrow> f v = g v" "\<And>v. length v = k \<Longrightarrow> length (g v) = k"
    "length v = k"
  shows "(f ^^ m) v = (g ^^ m) v \<and> length ((g ^^ m) v) = k"
  by (induction m) (simp_all add: assms)

lemma length_spec_pg_update [simp]:
  "length (spec_pg_update S l2 step k B x cols nnz a) = k"
  by (simp add: spec_pg_update_def)

lemma pg_iteration_formula:
  assumes "length A = dimA * k" "ia < dimA" "k \<le> length S"
    and "\<forall>j<maxupd.
           dots_positive k B (drop (Xr_indptr ! ia) Xr_indices)
             (Xr_indptr ! (ia + 1) - Xr_indptr ! ia)
             ((spec_pg_update S l2_reg step k B (drop (Xr_indptr ! ia) Xr)
                 (drop (Xr_indptr ! ia) Xr_indices) (Xr_indptr ! (ia + 1) - Xr_indptr ! ia)
               ^^ j) (vec k (ia * k) A))"
  shows "vec k (ia * k)
           (pg_iteration A B Xr Xr_indptr Xr_indices dimA k (1 / (1 + 2 * l2_reg * step))
              (cblas_dscal k (- step) S) Bsum_user step 1 maxupd)
         = (spec_pg_update S l2_reg step k B (drop (Xr_indptr ! ia) Xr)
              (drop (Xr_indptr ! ia) Xr_indices) (Xr_indptr ! (ia + 1) - Xr_indptr ! ia)
            ^^ maxupd) (vec k (ia * k) A)"
proof -
  let ?X = "drop (Xr_indptr ! ia) Xr" and ?I = "drop (Xr_indptr ! ia) Xr_indices"
    and ?n = "Xr_indptr ! (ia + 1) - Xr_indptr ! ia"
  have lv: "length (vec k (ia * k) A) = k"
    using assms(1,2) row_bounds [of ia dimA k] by (simp add: length_vec)
  have "vec k (ia * k)
           (pg_iteration A B Xr Xr_indptr Xr_indices dimA k (1 / (1 + 2 * l2_reg * step))
              (cblas_dscal k (- step) S) Bsum_user step 1 maxupd)
        = (pg_row B ?X ?I ?n k (1 / (1 + 2 * l2_reg * step)) (cblas_dscal k (- step) S) step
           ^^ maxupd) (vec k (ia * k) A)"
    using pg_iteration_rows(2) [OF assms(1,2), of B Xr Xr_indptr Xr_indices
        "1 / (1 + 2 * l2_reg * step)" "cblas_dscal k (- step) S" Bsum_user step 1 maxupd]
    by simp
  also have "\<dots> = (spec_pg_update S l2_reg step k B ?X ?I ?n ^^ maxupd) (vec k (ia * k) A)"
    using funpow_eq_on [where k = k and v = "vec k (ia * k) A" and m = maxupd
        and f = "pg_row B ?X ?I ?n k (1 / (1 + 2 * l2_reg * step)) (cblas_dscal k (- step) S) step"
        and g = "spec_pg_update S l2_reg step k B ?X ?I ?n"]
      lv assms(3)
    by (simp add: pg_row_formula)
  finally show ?thesis .
qed

lemma pg_second_half_formula:
  assumes "p_method P = pg" "p_w_mult P = 1" "length (st_B st) = p_dimB P * p_k P"
    "ib < p_dimB P" "st_neg_step_sz st = - st_step_size st"
    and "\<forall>j<p_maxupd P.
           dots_positive (p_k P) (st_A st) (drop (p_Xc_indptr P ! ib) (p_Xc_indices P))
             (p_Xc_indptr P ! (ib + 1) - p_Xc_indptr P ! ib)
             ((spec_pg_update
                 (fst (aggregate_stats (st_A st) (p_dimA P) (p_Xc_indices P) (p_Xc_indptr P)
                         (p_dimB P) (p_k P) (p_l1_reg P) (p_w_mult P)))
                 (p_l2_reg P) (st_step_size st) (p_k P) (st_A st)
                 (drop (p_Xc_indptr P ! ib) (p_Xc P)) (drop (p_Xc_indptr P ! ib) (p_Xc_indices P))
                 (p_Xc_indptr P ! (ib + 1) - p_Xc_indptr P ! ib)
               ^^ j) (vec (p_k P) (ib * p_k P) (st_B st)))"
  shows "vec (p_k P) (ib * p_k P) (st_B (update_B env P (cnst_div_of P st) st))
        = (spec_pg_update
             (fst (aggregate_stats (st_A st) (p_dimA P) (p_Xc_indices P) (p_Xc_indptr P)
                     (p_dimB P) (p_k P) (p_l1_reg P) (p_w_mult P)))
             (p_l2_reg P) (st_step_size st) (p_k P) (st_A st)
             (drop (p_Xc_indptr P ! ib) (p_Xc P)) (drop (p_Xc_indptr P ! ib) (p_Xc_indices P))
             (p_Xc_indptr P ! (ib + 1) - p_Xc_indptr P ! ib)
           ^^ p_maxupd P) (vec (p_k P) (ib * p_k P) (st_B st))"
proof -
  let ?S = "fst (aggregate_stats (st_A st) (p_dimA P) (p_Xc_indices P) (p_Xc_indptr P)
                     (p_dimB P) (p_k P) (p_l1_reg P) (p_w_mult P))"
  have lS: "p_k P \<le> length ?S" by (simp add: aggregate_stats_fst)
  have e: "st_B (update_B env P (cnst_div_of P st) st)
        = pg_iteration (st_B st) (st_A st) (p_Xc P) (p_Xc_indptr P) (p_Xc_indices P) (p_dimB P)
            (p_k P) (1 / (1 + 2 * p_l2_reg P * st_step_size st))
            (cblas_dscal (p_k P) (- st_step_size st) ?S) [] (st_step_size st) 1 (p_maxupd P)"
    using assms(1,2,5)
    by (simp add: update_B_def cnst_div_of_def Let_def split_beta aggregate_stats_def)
  show ?thesis
    unfolding e by (rule pg_iteration_formula [OF assms(3,4) lS assms(6)])
qed

text \<open>
  Claim C1. Every inner update of projected gradient with weight 1 should be
  \<open>a \<leftarrow> nonneg((a + step * gradAscent(a) - step * S) / (1 + 2 * l2 * step))\<close>, in
  either half-iteration. On the end-to-end scenario (two rows, two columns, \<open>k = 1\<close>,
  identity input, \<open>A\<close> and \<open>B\<close> all ones, no regularization, step \<open>0.1\<close>, one update, one
  iteration) the predicted value of row 0 is positive, the aggregate \<open>S\<close> is the
  column sum \<open>[2]\<close>, and the formula gives \<open>0.9\<close> for row 0 of \<open>A\<close>. The run
  interrupted after the \<open>A\<close> half-iteration returns \<open>A = [1.12, 1.12]\<close>: the \<open>A\<close> half
  of \<^verbatim>\<open>run_poismf\<close> scales the aggregate vector by \<^verbatim>\<open>neg_step_sz\<close> twice when the weight
  is 1 (lines 439 and 442), so the row is updated by the formula with \<open>- step * S\<close> in
  the place of \<open>S\<close>, that is with \<open>+ step * step * S\<close> in the place of \<open>- step * S\<close>.
  The \<open>B\<close> half scales once and follows the formula (lemma \<open>pg_second_half_formula\<close>).
\<close>

theorem pg_first_half_scales_twice:
  "0 < cblas_ddot 1 [1] (vec 1 (0 * 1) [1, 1])
   \<and> fst (aggregate_stats [1, 1] 2 [0, 1] [0, 1, 2] 2 1 0 1) = [2]
   \<and> spec_pg_update [2] 0 (1 / 10) 1 [1, 1] [1] [0] 1 [1] = [9 / 10]
   \<and> res_A (run_poismf (clip_env (\<lambda>b. True) (\<lambda>n. n = 1)) False scenario [1, 1] [1, 1] (1 / 10))
       = [28 / 25, 28 / 25]
   \<and> spec_pg_update (cblas_dscal 1 (- (1 / 10)) [2]) 0 (1 / 10) 1 [1, 1] [1] [0] 1 [1]
       = [28 / 25]"
  by code_simp

subsection \<open>The two half-iterations against each other\<close>

text \<open>
  Claim C2. The half-iteration for \<open>B\<close> and the mirrored half-iteration for \<open>A\<close>
  (views, dimensions and matrices exchanged) should agree. For conjugate gradient on
  the matrix with rows \<open>[0, 5]\<close> and \<open>[7, 0]\<close>, with minimizers that return the
  gradient they are shown, the \<open>B\<close> half reads the row view's values through the
  column view's offsets and gives \<open>[-3, -5]\<close> where the mirrored \<open>A\<close> half gives
  \<open>[-5, -3]\<close>; for projected gradient on the end-to-end scenario the \<open>A\<close> half
  gives \<open>[1.12, 1.12]\<close> where the mirrored \<open>B\<close> half gives \<open>[0.9, 0.9]\<close>.
\<close>

theorem role_symmetry_broken:
  "st_B (update_B probe_env cg_case 1 (init_state [1, 1] [1, 1] (1 / 10))) = [- 3, - 5]
   \<and> st_A (update_A probe_env (mirror cg_case) 1
            (mirror_state (init_state [1, 1] [1, 1] (1 / 10)))) = [- 5, - 3]
   \<and> st_A (update_A probe_env scenario 1 (init_state [1, 1] [1, 1] (1 / 10)))
       = [28 / 25, 28 / 25]
   \<and> st_B (update_B probe_env (mirror scenario) 1
            (mirror_state (init_state [1, 1] [1, 1] (1 / 10)))) = [9 / 10, 9 / 10]"
  by code_simp

end
